theory Spec2Isabelle
  imports Main "HOL-Library.Word" "HOL-Library.Sublist"
begin

unbundle bit_operations_syntax

section \<open>MQTT topic paths of the HR20 master (src/mqtt.h)\<close>

text \<open>
  C strings are modelled by the list of their characters before the terminating NUL.
  A \<open>const char *\<close> into such a string is the remaining suffix of the list; the null
  pointer is \<open>None\<close>. Reading \<open>*p\<close> at the end of the string yields NUL, so the
  test \<open>*p == 0\<close> of the source is the test for the empty suffix.
\<close>

type_synonym u8 = "8 word"
type_synonym u16 = "16 word"
type_synonym u32 = "32 word"

subsection \<open>Topic enums and their names\<close>

datatype Topic =
    AVG_TMP | BAT | ERR | LOCK | MODE | REQ_TMP | VALVE_WTD | WND | LAST_SEEN
  | TIMER | STATE | INVALID_TOPIC

datatype TimerTopic = TIMER_NONE | TIMER_TIME | TIMER_MODE | INVALID_TIMER_TOPIC

fun Topic_code :: "Topic \<Rightarrow> u16" where
  "Topic_code AVG_TMP = 1"
| "Topic_code BAT = 2"
| "Topic_code ERR = 3"
| "Topic_code LOCK = 4"
| "Topic_code MODE = 5"
| "Topic_code REQ_TMP = 6"
| "Topic_code VALVE_WTD = 7"
| "Topic_code WND = 8"
| "Topic_code LAST_SEEN = 9"
| "Topic_code TIMER = 10"
| "Topic_code STATE = 11"
| "Topic_code INVALID_TOPIC = 255"

fun TimerTopic_code :: "TimerTopic \<Rightarrow> u16" where
  "TimerTopic_code TIMER_NONE = 0"
| "TimerTopic_code TIMER_TIME = 1"
| "TimerTopic_code TIMER_MODE = 2"
| "TimerTopic_code INVALID_TIMER_TOPIC = 255"

definition S_AVG_TMP :: string where "S_AVG_TMP = ''average_temp''"
definition S_BAT :: string where "S_BAT = ''battery''"
definition S_ERR :: string where "S_ERR = ''error''"
definition S_LOCK :: string where "S_LOCK = ''lock''"
definition S_MODE :: string where "S_MODE = ''mode''"
definition S_REQ_TMP :: string where "S_REQ_TMP = ''requested_temp''"
definition S_VALVE_WTD :: string where "S_VALVE_WTD = ''valve_wanted''"
definition S_WND :: string where "S_WND = ''window''"
definition S_LAST_SEEN :: string where "S_LAST_SEEN = ''last_seen''"
definition S_STATE :: string where "S_STATE = ''state''"
definition S_TIMER :: string where "S_TIMER = ''timer''"
definition S_TIMER_LEN :: nat where "S_TIMER_LEN = 5"
definition S_TIMER_MODE :: string where "S_TIMER_MODE = ''mode''"
definition S_TIMER_TIME :: string where "S_TIMER_TIME = ''time''"
definition S_SET_MODE :: string where "S_SET_MODE = ''set''"

lemmas S_defs =
  S_AVG_TMP_def S_BAT_def S_ERR_def S_LOCK_def S_MODE_def S_REQ_TMP_def
  S_VALVE_WTD_def S_WND_def S_LAST_SEEN_def S_STATE_def S_TIMER_def S_TIMER_LEN_def
  S_TIMER_MODE_def S_TIMER_TIME_def S_SET_MODE_def

definition MAX_MQTT_PATH_LENGTH :: nat where "MAX_MQTT_PATH_LENGTH = 128"

fun topic_str :: "Topic \<Rightarrow> string" where
  "topic_str AVG_TMP = S_AVG_TMP"
| "topic_str BAT = S_BAT"
| "topic_str ERR = S_ERR"
| "topic_str LOCK = S_LOCK"
| "topic_str MODE = S_MODE"
| "topic_str REQ_TMP = S_REQ_TMP"
| "topic_str VALVE_WTD = S_VALVE_WTD"
| "topic_str WND = S_WND"
| "topic_str LAST_SEEN = S_LAST_SEEN"
| "topic_str STATE = S_STATE"
| "topic_str TIMER = S_TIMER"
| "topic_str INVALID_TOPIC = ''invalid!''"

text \<open>\<open>timer_topic_str\<close> returns the null pointer for anything but TIME and MODE.\<close>

fun timer_topic_str :: "TimerTopic \<Rightarrow> string option" where
  "timer_topic_str TIMER_TIME = Some S_TIMER_TIME"
| "timer_topic_str TIMER_MODE = Some S_TIMER_MODE"
| "timer_topic_str _ = None"

text \<open>
  \<open>parse_topic\<close> switches on the first character; \<open>strcmp\<close> compares the whole rest of
  the string, \<open>strncmp\<close> with \<open>S_TIMER_LEN\<close> only its first five characters.
\<close>

definition parse_topic :: "string \<Rightarrow> Topic" where
  "parse_topic tp =
     (case tp of
        [] \<Rightarrow> INVALID_TOPIC
      | c # _ \<Rightarrow>
          if c = CHR ''a'' then (if tp = S_AVG_TMP then AVG_TMP else INVALID_TOPIC)
          else if c = CHR ''b'' then (if tp = S_BAT then BAT else INVALID_TOPIC)
          else if c = CHR ''e'' then (if tp = S_ERR then ERR else INVALID_TOPIC)
          else if c = CHR ''l'' then
            (if tp = S_LOCK then LOCK
             else if tp = S_LAST_SEEN then LAST_SEEN else INVALID_TOPIC)
          else if c = CHR ''m'' then (if tp = S_MODE then MODE else INVALID_TOPIC)
          else if c = CHR ''r'' then (if tp = S_REQ_TMP then REQ_TMP else INVALID_TOPIC)
          else if c = CHR ''s'' then (if tp = S_STATE then STATE else INVALID_TOPIC)
          else if c = CHR ''t'' then
            (if take S_TIMER_LEN tp = take S_TIMER_LEN S_TIMER then TIMER
             else INVALID_TOPIC)
          else if c = CHR ''v'' then (if tp = S_VALVE_WTD then VALVE_WTD else INVALID_TOPIC)
          else if c = CHR ''w'' then (if tp = S_WND then WND else INVALID_TOPIC)
          else INVALID_TOPIC)"

text \<open>The argument of \<open>parse_timer_topic\<close> may be the null pointer.\<close>

definition parse_timer_topic :: "string option \<Rightarrow> TimerTopic" where
  "parse_timer_topic tp =
     (case tp of
        None \<Rightarrow> INVALID_TIMER_TOPIC
      | Some [] \<Rightarrow> INVALID_TIMER_TOPIC
      | Some (c # cs) \<Rightarrow>
          if c = CHR ''t'' then
            (if c # cs = S_TIMER_TIME then TIMER_TIME else INVALID_TIMER_TOPIC)
          else if c = CHR ''m'' then
            (if c # cs = S_TIMER_MODE then TIMER_MODE else INVALID_TIMER_TOPIC)
          else INVALID_TIMER_TOPIC)"

subsection \<open>The Path struct\<close>

record Path =
  addr :: u8
  day :: u8
  slot :: u8
  topic :: Topic
  timer_topic :: TimerTopic
  setter :: bool

text \<open>The default constructor \<open>Path()\<close>, which every failing \<open>return {}\<close> yields.\<close>

definition Path_default :: Path where
  "Path_default =
     \<lparr>addr = 0, day = 0, slot = 0, topic = INVALID_TOPIC, timer_topic = TIMER_NONE,
      setter = False\<rparr>"

text \<open>The six-argument constructor, in the argument order of the source.\<close>

definition Path_make :: "u8 \<Rightarrow> Topic \<Rightarrow> bool \<Rightarrow> TimerTopic \<Rightarrow> u8 \<Rightarrow> u8 \<Rightarrow> Path" where
  "Path_make a t set_mode st d s =
     \<lparr>addr = a, day = d, slot = s, topic = t, timer_topic = st, setter = set_mode\<rparr>"

definition valid :: "Path \<Rightarrow> bool" where
  "valid p = (addr p \<noteq> 0)"

definition as_uint :: "Path \<Rightarrow> u16" where
  "as_uint p =
     ucast (addr p) OR push_bit 5 (Topic_code (topic p))
       OR push_bit 9 (TimerTopic_code (timer_topic p))"

definition SEPARATOR :: char where "SEPARATOR = CHR ''/''"
definition WILDCARD :: char where "WILDCARD = CHR ''#''"

subsection \<open>Tokenizer\<close>

text \<open>\<open>*p\<close>: the character under the pointer, NUL at the end of the string.\<close>

definition deref :: "string \<Rightarrow> char" where
  "deref p = (case p of [] \<Rightarrow> CHR 0x00 | c # _ \<Rightarrow> c)"

text \<open>
  A \<open>Token\<close> is \<open>std::pair<const char*, uint8_t>\<close>: the start of the token and its
  length, which \<open>token\<close> stores in eight bits.
\<close>

type_synonym Token = "string \<times> u8"

fun token_len :: "string \<Rightarrow> nat" where
  "token_len [] = 0"
| "token_len (c # cs) = (if c = SEPARATOR then 0 else Suc (token_len cs))"

definition token :: "string \<Rightarrow> Token" where
  "token p = (p, of_nat (token_len p))"

text \<open>\<open>t.first + t.second\<close>.\<close>

definition token_end :: "Token \<Rightarrow> string" where
  "token_end t = drop (unat (snd t)) (fst t)"

definition skip_separator :: "string option \<Rightarrow> string option \<Rightarrow> string option" where
  "skip_separator p other =
     (case p of
        None \<Rightarrow> None
      | Some s \<Rightarrow>
          if deref s \<noteq> SEPARATOR then other
          else if tl s = [] then None
          else Some (tl s))"

definition skip_token :: "Token \<Rightarrow> string option" where
  "skip_token t = skip_separator (Some (token_end t)) None"

text \<open>\<open>strncmp(a, b, n) == 0\<close> on two C strings.\<close>

definition strncmp_eq :: "string \<Rightarrow> string \<Rightarrow> nat \<Rightarrow> bool" where
  "strncmp_eq a b n = (take n a = take n b)"

definition cmp_tokens :: "Token \<Rightarrow> Token \<Rightarrow> string option" where
  "cmp_tokens a b =
     (if snd a \<noteq> snd b then None
      else if strncmp_eq (fst a) (fst b) (unat (snd a)) then Some (token_end a)
      else None)"

text \<open>
  \<open>to_num\<close> reads at most \<open>cnt\<close> decimal digits into an eight-bit accumulator and
  advances the pointer past the digits it has read. It returns the number and the
  advanced pointer.
\<close>

definition is_digit :: "char \<Rightarrow> bool" where
  "is_digit c = (c \<in> set ''0123456789'')"

definition digit_val :: "char \<Rightarrow> u8" where
  "digit_val c = of_nat (of_char c - of_char (CHR ''0''))"

fun to_num_loop :: "nat \<Rightarrow> u8 \<Rightarrow> string \<Rightarrow> u8 \<times> string" where
  "to_num_loop 0 res p = (res, p)"
| "to_num_loop (Suc cnt) res [] = (res, [])"
| "to_num_loop (Suc cnt) res (c # cs) =
     (if is_digit c then to_num_loop cnt (res * 10 + digit_val c) cs else (res, c # cs))"

definition to_num :: "string \<Rightarrow> u8 \<Rightarrow> u8 \<times> string" where
  "to_num p cnt = to_num_loop (unat cnt) 0 p"

subsection \<open>Prefix skipping\<close>

function skip_prefix_loop :: "string option \<Rightarrow> string option \<Rightarrow> string option" where
  "skip_prefix_loop (Some p) (Some pfx) =
     (case cmp_tokens (token p) (token pfx) of
        None \<Rightarrow> None
      | Some _ \<Rightarrow> skip_prefix_loop (skip_token (token p)) (skip_token (token pfx)))"
| "skip_prefix_loop None (Some pfx) = None"
| "skip_prefix_loop p None = p"
  by pat_completeness auto

lemma skip_separator_shorter:
  "skip_separator (Some s) None = Some r \<Longrightarrow> length r < length s"
  by (cases s) (auto simp: skip_separator_def deref_def split: if_splits)

lemma skip_token_shorter:
  "skip_token (token p) = Some r \<Longrightarrow> length r < length p"
proof -
  assume a: "skip_token (token p) = Some r"
  then have "length r < length (token_end (token p))"
    unfolding skip_token_def by (rule skip_separator_shorter)
  also have "\<dots> \<le> length p"
    by (simp add: token_end_def token_def)
  finally show ?thesis .
qed

termination skip_prefix_loop
proof (relation "measure (\<lambda>(p, pfx). case p of None \<Rightarrow> 0 | Some s \<Rightarrow> Suc (length s))")
  show "wf (measure (\<lambda>(p, pfx). case p of None \<Rightarrow> 0 | Some s \<Rightarrow> Suc (length s)))"
    by simp
next
  fix p pfx x
  show "((skip_token (token p), skip_token (token pfx)), (Some p, Some pfx))
        \<in> measure (\<lambda>(p, pfx). case p of None \<Rightarrow> 0 | Some s \<Rightarrow> Suc (length s))"
    by (cases "skip_token (token p)") (auto dest: skip_token_shorter)
qed

definition skip_prefix :: "string \<Rightarrow> string \<Rightarrow> string option" where
  "skip_prefix p pfx =
     skip_prefix_loop (skip_separator (Some p) (Some p)) (skip_separator (Some pfx) (Some pfx))"

subsection \<open>Path::parse\<close>

definition S_SET_TOK :: Token where
  "S_SET_TOK = (S_SET_MODE, of_nat (length S_SET_MODE))"

text \<open>The timer branch of \<open>parse\<close>; \<open>pos\<close> points at the topic name.\<close>

definition parse_timer :: "u8 \<Rightarrow> bool \<Rightarrow> string \<Rightarrow> Path" where
  "parse_timer address set_mode pos0 =
     (let pos = token_end (token pos0) in
      if deref pos \<noteq> SEPARATOR then Path_default
      else
        let pos = tl pos;
            (d, pos) = to_num pos (snd (token pos))
        in if deref pos \<noteq> SEPARATOR then Path_default
           else
             let pos = tl pos;
                 (s, pos) = to_num pos (snd (token pos))
             in if deref pos \<noteq> SEPARATOR then Path_default
                else
                  let pos = tl pos;
                      tt = parse_timer_topic (Some pos)
                  in if tt = INVALID_TIMER_TOPIC then Path_default
                     else Path_make address TIMER set_mode tt d s)"

text \<open>\<open>parse\<close> from the conversion of the address token on.\<close>

definition parse_addr :: "bool \<Rightarrow> string \<Rightarrow> Token \<Rightarrow> Path" where
  "parse_addr set_mode pos0 a =
     (let (address, pos) = to_num pos0 (snd a) in
      if deref pos \<noteq> SEPARATOR then Path_default
      else
        let pos = tl pos;
            tp = parse_topic pos
        in if tp = INVALID_TOPIC then Path_default
           else if tp = TIMER then parse_timer address set_mode pos
           else Path_make address tp set_mode TIMER_NONE 0 0)"

text \<open>\<open>parse\<close> after the prefix has been skipped.\<close>

definition parse_body :: "string \<Rightarrow> Path" where
  "parse_body pos =
     (let a = token pos in
      if cmp_tokens a S_SET_TOK \<noteq> None then
        (case skip_token a of
           None \<Rightarrow> Path_default
         | Some pos' \<Rightarrow> parse_addr True pos' (token pos'))
      else parse_addr False pos a)"

text \<open>The static \<open>Path::prefix\<close> is passed as the first argument.\<close>

definition parse :: "string \<Rightarrow> string \<Rightarrow> Path" where
  "parse pfx p =
     (case skip_prefix p pfx of
        None \<Rightarrow> Path_default
      | Some pos \<Rightarrow> if pos = [] then Path_default else parse_body pos)"

subsection \<open>Path::compose\<close>

text \<open>
  Modelled from the spec: \<open>StrMaker\<close> (str.h) is not part of the source. Appending a
  \<open>uint8_t\<close> writes its decimal digits without leading zeros, appending a string or a
  character writes it as it is, and appending the null pointer writes nothing. The
  buffer is taken to be large enough for the whole text.
\<close>

definition digit_char :: "nat \<Rightarrow> char" where
  "digit_char n = ''0123456789'' ! n"

fun dec :: "nat \<Rightarrow> string" where
  "dec n = (if n < 10 then [digit_char n] else dec (n div 10) @ [digit_char (n mod 10)])"

declare dec.simps [simp del]

definition compose :: "string \<Rightarrow> Path \<Rightarrow> string" where
  "compose pfx p =
     pfx @ [SEPARATOR]
       @ (if setter p then S_SET_MODE @ [SEPARATOR] else [])
       @ dec (unat (addr p)) @ [SEPARATOR] @ topic_str (topic p)
       @ (if topic p = TIMER then
            [SEPARATOR] @ dec (unat (day p)) @ [SEPARATOR] @ dec (unat (slot p))
              @ [SEPARATOR] @ (case timer_topic_str (timer_topic p) of None \<Rightarrow> [] | Some n \<Rightarrow> n)
          else [])"

definition compose_set_prefix_wildcard :: "string \<Rightarrow> string" where
  "compose_set_prefix_wildcard pfx = pfx @ [SEPARATOR] @ S_SET_MODE @ [SEPARATOR] @ [WILDCARD]"


section \<open>The MQTT publisher (struct MQTTPublisher)\<close>

subsection \<open>What the publisher uses from outside mqtt.h\<close>

text \<open>
  Modelled from the spec: the device model of master.h is not part of the source. A
  cached value has a "published" flag and a flag telling whether the remote value is
  known; its text is what the value conversion layer renders for it. A timer slot has
  the same two flags and the texts of its mode and its time.
\<close>

record CachedValue =
  published :: bool
  remote_valid :: bool
  to_str :: string

record TimerSlot =
  slot_published :: bool
  slot_remote_valid :: bool
  mode_str :: string
  time_str :: string

record HR20 =
  auto_mode :: CachedValue
  menu_locked :: CachedValue
  mode_window :: CachedValue
  temp_avg :: CachedValue
  bat_avg :: CachedValue
  temp_wanted :: CachedValue
  cur_valve_wtd :: CachedValue
  ctl_err :: CachedValue
  last_contact :: nat
  timers :: "nat \<Rightarrow> nat \<Rightarrow> TimerSlot"

text \<open>
  Modelled from the spec: the constants, tables and device operations of config.h,
  master.h and json.h are not part of the source; they are parameters of the model,
  collected in one record. \<open>prefix\<close> is the static \<open>Path::prefix\<close>; the \<open>mqtt_\<close>
  fields are those of \<open>Config\<close>, \<open>sizeof_mqtt_user\<close> the size of its user buffer.
  \<open>MQTT_JSON\<close> tells whether the macro of that name is defined. The setters return
  the \<open>ok\<close> flag and the changed device.
\<close>

record Config =
  MAX_HR_ADDR :: nat
  MQTT_RECONNECT_TIME :: int
  CHANGE_FREQUENT :: u32
  CHANGE_TIMER_MASK :: u32
  change_get_timer_mask :: "u32 \<Rightarrow> u8"
  timer_day_2_change :: "nat \<Rightarrow> u32"
  TIMER_DAYS :: nat
  TIMER_SLOTS_PER_DAY :: nat
  MQTT_JSON :: bool
  path_prefix :: string
  mqtt_client_id :: string
  mqtt_user :: string
  mqtt_pass :: string
  sizeof_mqtt_user :: nat
  append_client_attr :: "HR20 \<Rightarrow> string"
  temp_wanted_set_requested_from_str :: "string \<Rightarrow> HR20 \<Rightarrow> bool \<times> HR20"
  auto_mode_set_requested_from_str :: "string \<Rightarrow> HR20 \<Rightarrow> bool \<times> HR20"
  menu_locked_set_requested_from_str :: "string \<Rightarrow> HR20 \<Rightarrow> bool \<times> HR20"
  set_timer_mode :: "u8 \<Rightarrow> u8 \<Rightarrow> string \<Rightarrow> HR20 \<Rightarrow> bool \<times> HR20"
  set_timer_time :: "u8 \<Rightarrow> u8 \<Rightarrow> string \<Rightarrow> HR20 \<Rightarrow> bool \<times> HR20"

text \<open>The codes of error.h that mqtt.h reports, and the four reporting macros.\<close>

datatype Code =
    MQTT_CANNOT_CONNECT | MQTT_CONN | MQTT_PUBLISH | MQTT_CANT_PUBLISH
  | MQTT_INVALID_CLIENT | MQTT_INVALID_TOPIC | MQTT_CALLBACK_BAD_ADDR
  | MQTT_INVALID_TIMER_TOPIC | MQTT_CALLBACK | MQTT_INVALID_TOPIC_VALUE

datatype Setter =
    Set_temp_wanted | Set_auto_mode | Set_menu_locked
  | Set_timer_mode u8 u8 | Set_timer_time u8 u8

text \<open>
  What a run leaves behind, in order: the reports of the \<open>ERR\<close>, \<open>ERR_ARG\<close>, \<open>EVENT\<close>
  and \<open>EVENT_ARG\<close> macros, and the calls of device setters (address, setter, payload).
\<close>

datatype Report =
    Err Code | Err_arg Code int | Event Code | Event_arg Code int
  | Setter_call nat Setter string

text \<open>
  Modelled from the spec: the transport client (PubSubClient) is not part of the
  source. Its state keeps whether it is connected and every call made to it;
  \<open>connect_result\<close> and \<open>publish_result\<close> say what the n-th call of \<open>connect\<close> and of
  \<open>publish\<close> reports, so that any pattern of failures can be given.
\<close>

record PubSubClient =
  is_connected :: bool
  connect_result :: "nat \<Rightarrow> bool"
  publish_result :: "nat \<Rightarrow> bool"
  connect_calls :: "(string \<times> (string \<times> string) option) list"
  subscribe_calls :: "string list"
  publish_calls :: "(string \<times> string) list"

definition client_connect ::
  "string \<Rightarrow> (string \<times> string) option \<Rightarrow> PubSubClient \<Rightarrow> bool \<times> PubSubClient" where
  "client_connect cid cred cl =
     (let ok = connect_result cl (length (connect_calls cl)) in
      (ok, cl\<lparr>is_connected := ok, connect_calls := connect_calls cl @ [(cid, cred)]\<rparr>))"

definition client_subscribe :: "string \<Rightarrow> PubSubClient \<Rightarrow> PubSubClient" where
  "client_subscribe t cl = cl\<lparr>subscribe_calls := subscribe_calls cl @ [t]\<rparr>"

definition client_publish :: "string \<Rightarrow> string \<Rightarrow> PubSubClient \<Rightarrow> bool \<times> PubSubClient" where
  "client_publish t v cl =
     (publish_result cl (length (publish_calls cl)),
      cl\<lparr>publish_calls := publish_calls cl @ [(t, v)]\<rparr>)"

subsection \<open>State of the publisher\<close>

text \<open>
  \<open>model\<close> is \<open>master.model[addr]\<close>, which may yield the null pointer. \<open>pub_addr\<close> is
  the member \<open>addr\<close> of the publisher. \<open>reports\<close> collects what the macros report.
\<close>

record MQTTPublisher =
  client :: PubSubClient
  model :: "nat \<Rightarrow> HR20 option"
  states :: "u32 list"
  pub_addr :: u8
  state_maj :: u8
  state_min :: u8
  last_conn :: int
  reports :: "Report list"

definition STM_FREQ :: u8 where "STM_FREQ = 0"
definition STM_TIMER :: u8 where "STM_TIMER = 1"
definition STM_NEXT_CLIENT :: u8 where "STM_NEXT_CLIENT = 2"

definition report :: "Report \<Rightarrow> MQTTPublisher \<Rightarrow> MQTTPublisher" where
  "report r st = st\<lparr>reports := reports st @ [r]\<rparr>"

text \<open>
  The array \<open>states\<close> has \<open>MAX_HR_ADDR\<close> entries and the cursor stays inside it; the
  source reads and writes \<open>states[addr]\<close> without a check.
\<close>

definition wf_publisher :: "Config \<Rightarrow> MQTTPublisher \<Rightarrow> bool" where
  "wf_publisher C st =
     (length (states st) = MAX_HR_ADDR C \<and> unat (pub_addr st) < MAX_HR_ADDR C)"

subsection \<open>reconnect\<close>

definition strnlen :: "string \<Rightarrow> nat \<Rightarrow> nat" where
  "strnlen s n = min (length s) n"

definition reconnect :: "Config \<Rightarrow> int \<Rightarrow> MQTTPublisher \<Rightarrow> bool \<times> MQTTPublisher" where
  "reconnect C now st =
     (if \<not> is_connected (client st) then
        if now - last_conn st < MQTT_RECONNECT_TIME C then (False, st)
        else
          let st = st\<lparr>last_conn := now\<rparr>;
              unl = strnlen (mqtt_user C) (sizeof_mqtt_user C);
              cred = (if 0 < unl \<and> unl < sizeof_mqtt_user C
                      then Some (mqtt_user C, mqtt_pass C) else None);
              (ok, cl) = client_connect (mqtt_client_id C) cred (client st)
          in if \<not> ok then (False, report (Err MQTT_CANNOT_CONNECT) (st\<lparr>client := cl\<rparr>))
             else
               let st = report (Event MQTT_CONN) (st\<lparr>client := cl\<rparr>);
                   path = compose_set_prefix_wildcard (path_prefix C)
               in (True, st\<lparr>client := client_subscribe path (client st)\<rparr>)
      else (True, st))"

subsection \<open>The cursor\<close>

definition next_client :: "Config \<Rightarrow> MQTTPublisher \<Rightarrow> MQTTPublisher" where
  "next_client C st =
     (let a = pub_addr st + 1;
          a = (if MAX_HR_ADDR C \<le> unat a then 0 else a)
      in st\<lparr>pub_addr := a, state_maj := STM_FREQ, state_min := 0\<rparr>)"

definition next_major :: "Config \<Rightarrow> MQTTPublisher \<Rightarrow> MQTTPublisher" where
  "next_major C st =
     (let st = st\<lparr>state_min := 0, state_maj := state_maj st + 1\<rparr>
      in if STM_NEXT_CLIENT \<le> state_maj st then next_client C st else st)"

subsection \<open>The publish overloads\<close>

text \<open>\<open>publish(const Str &path, CachedValue &val, uint16_t hint)\<close>.\<close>

definition publish_value ::
  "string \<Rightarrow> CachedValue \<Rightarrow> u16 \<Rightarrow> MQTTPublisher \<Rightarrow> CachedValue \<times> MQTTPublisher" where
  "publish_value path val hint st =
     (if published val \<or> \<not> remote_valid val then (val, st)
      else
        let (ok, cl) = client_publish path (to_str val) (client st);
            st = st\<lparr>client := cl\<rparr>;
            st = (if ok then report (Event_arg MQTT_PUBLISH (uint hint)) st
                  else report (Err_arg MQTT_CANT_PUBLISH (uint hint)) st)
        in (val\<lparr>published := True\<rparr>, st))"

text \<open>
  \<open>publish(const Path &p, CachedValue &val)\<close> and \<open>publish_synced\<close>, which do the
  same; the value is a member of the device at the publisher's address, given by its
  selector and its update function.
\<close>

definition publish_member ::
  "Config \<Rightarrow> Path \<Rightarrow> (HR20 \<Rightarrow> CachedValue) \<Rightarrow> ((CachedValue \<Rightarrow> CachedValue) \<Rightarrow> HR20 \<Rightarrow> HR20)
   \<Rightarrow> HR20 \<Rightarrow> MQTTPublisher \<Rightarrow> MQTTPublisher" where
  "publish_member C p sel upd hr st =
     (let (val, st) = publish_value (compose (path_prefix C) p) (sel hr) (as_uint p) st
      in st\<lparr>model := (model st)(unat (pub_addr st) \<mapsto> upd (\<lambda>_. val) hr)\<rparr>)"

text \<open>\<open>publish(const Path &p, const Str &val)\<close>.\<close>

definition publish_str :: "Config \<Rightarrow> Path \<Rightarrow> string \<Rightarrow> MQTTPublisher \<Rightarrow> MQTTPublisher" where
  "publish_str C p val st =
     (let (ok, cl) = client_publish (compose (path_prefix C) p) val (client st);
          st = st\<lparr>client := cl\<rparr>
      in if ok then report (Event_arg MQTT_PUBLISH (uint (as_uint p))) st
         else report (Err_arg MQTT_CANT_PUBLISH (uint (as_uint p))) st)"

definition publish_timer_slot ::
  "Config \<Rightarrow> Path \<Rightarrow> TimerSlot \<Rightarrow> MQTTPublisher \<Rightarrow> TimerSlot \<times> MQTTPublisher" where
  "publish_timer_slot C p val st =
     (let mode_path = p\<lparr>timer_topic := TIMER_MODE\<rparr>;
          time_path = p\<lparr>timer_topic := TIMER_TIME\<rparr>
      in if \<not> slot_published val \<and> slot_remote_valid val then
           let (err, cl) =
                 client_publish (compose (path_prefix C) mode_path) (mode_str val) (client st);
               (err1, cl) = client_publish (compose (path_prefix C) time_path) (time_str val) cl;
               st = st\<lparr>client := cl\<rparr>;
               st = (if \<not> err \<or> \<not> err1
                     then report (Err_arg MQTT_CANT_PUBLISH (uint (as_uint p))) st
                     else report (Event_arg MQTT_PUBLISH (uint (as_uint p))) st)
           in (val\<lparr>slot_published := True\<rparr>, st)
         else (val, st))"

subsection \<open>The two walks\<close>

definition NEXT_MIN_STATE :: "MQTTPublisher \<Rightarrow> MQTTPublisher" where
  "NEXT_MIN_STATE st = st\<lparr>state_min := state_min st + 1\<rparr>"

definition publish_frequent :: "Config \<Rightarrow> MQTTPublisher \<Rightarrow> MQTTPublisher" where
  "publish_frequent C st =
     (let a = unat (pub_addr st) in
      if states st ! a AND CHANGE_FREQUENT C = 0 then next_major C st
      else
        case model st a of
          None \<Rightarrow> report (Err MQTT_INVALID_CLIENT) st
        | Some hr \<Rightarrow>
            let p = Path_make (pub_addr st) INVALID_TOPIC False TIMER_NONE 0 0;
                m = state_min st
            in if m = 0 then
                 NEXT_MIN_STATE (publish_member C (p\<lparr>topic := MODE\<rparr>) auto_mode auto_mode_update hr st)
               else if m = 1 then
                 NEXT_MIN_STATE (publish_member C (p\<lparr>topic := LOCK\<rparr>) menu_locked menu_locked_update hr st)
               else if m = 2 then
                 NEXT_MIN_STATE (publish_member C (p\<lparr>topic := WND\<rparr>) mode_window mode_window_update hr st)
               else if m = 3 then
                 NEXT_MIN_STATE (publish_member C (p\<lparr>topic := AVG_TMP\<rparr>) temp_avg temp_avg_update hr st)
               else if m = 4 then
                 NEXT_MIN_STATE (publish_member C (p\<lparr>topic := BAT\<rparr>) bat_avg bat_avg_update hr st)
               else if m = 5 then
                 NEXT_MIN_STATE (publish_member C (p\<lparr>topic := REQ_TMP\<rparr>) temp_wanted temp_wanted_update hr st)
               else if m = 6 then
                 NEXT_MIN_STATE
                   (publish_member C (p\<lparr>topic := VALVE_WTD\<rparr>) cur_valve_wtd cur_valve_wtd_update hr st)
               else if m = 7 then
                 NEXT_MIN_STATE (publish_member C (p\<lparr>topic := ERR\<rparr>) ctl_err ctl_err_update hr st)
               else if m = 8 then
                 NEXT_MIN_STATE (publish_str C (p\<lparr>topic := LAST_SEEN\<rparr>) (dec (last_contact hr)) st)
               else if MQTT_JSON C \<and> m = 9 then
                 NEXT_MIN_STATE (publish_str C (p\<lparr>topic := STATE\<rparr>) (append_client_attr C hr) st)
               else
                 next_major C
                   (st\<lparr>states := (states st)[a := states st ! a AND NOT (CHANGE_FREQUENT C)]\<rparr>))"

definition publish_timers :: "Config \<Rightarrow> MQTTPublisher \<Rightarrow> MQTTPublisher" where
  "publish_timers C st =
     (let a = unat (pub_addr st) in
      case model st a of
        None \<Rightarrow> report (Err MQTT_INVALID_CLIENT) st
      | Some hr \<Rightarrow>
          if states st ! a AND CHANGE_TIMER_MASK C = 0 then next_major C st
          else
            let d = drop_bit 3 (state_min st);
                s = state_min st AND 7;
                st = st\<lparr>state_min := state_min st + 1\<rparr>;
                mask = change_get_timer_mask C (states st ! a)
            in if 8 \<le> d then next_major C st
               else if push_bit (unat d) (1 :: int) AND uint mask = 0 then st
               else
                 let st = (if s = 7
                           then st\<lparr>states :=
                                  (states st)[a := states st ! a AND NOT (timer_day_2_change C (unat d))]\<rparr>
                           else st);
                     p = Path_make (pub_addr st) TIMER False TIMER_NONE d s;
                     (val, st) = publish_timer_slot C p (timers hr (unat d) (unat s)) st
                 in st\<lparr>model := (model st)(a \<mapsto>
                        hr\<lparr>timers := (timers hr)(unat d := (timers hr (unat d))(unat s := val))\<rparr>)\<rparr>)"

subsection \<open>callback\<close>

text \<open>The end of \<open>callback\<close>, after the switch on the topic.\<close>

definition callback_done :: "Path \<Rightarrow> bool \<Rightarrow> MQTTPublisher \<Rightarrow> MQTTPublisher" where
  "callback_done p ok st =
     (let st = report (Event_arg MQTT_CALLBACK (uint (as_uint p))) st
      in if \<not> ok then report (Err_arg MQTT_INVALID_TOPIC_VALUE (uint (as_uint p))) st else st)"

text \<open>A call of a device setter on the device \<open>hr\<close> at the path's address.\<close>

definition call_setter ::
  "Path \<Rightarrow> Setter \<Rightarrow> (string \<Rightarrow> HR20 \<Rightarrow> bool \<times> HR20) \<Rightarrow> string \<Rightarrow> HR20 \<Rightarrow> MQTTPublisher
   \<Rightarrow> bool \<times> MQTTPublisher" where
  "call_setter p which f val hr st =
     (let (ok, hr') = f val hr;
          st = report (Setter_call (unat (addr p)) which val) st
      in (ok, st\<lparr>model := (model st)(unat (addr p) \<mapsto> hr')\<rparr>))"

text \<open>A setter call of the switch followed by the end of \<open>callback\<close>.\<close>

definition dispatch_setter ::
  "Path \<Rightarrow> Setter \<Rightarrow> (string \<Rightarrow> HR20 \<Rightarrow> bool \<times> HR20) \<Rightarrow> string \<Rightarrow> HR20 \<Rightarrow> MQTTPublisher
   \<Rightarrow> MQTTPublisher" where
  "dispatch_setter p which f val hr st =
     (let (ok, st) = call_setter p which f val hr st in callback_done p ok st)"

text \<open>\<open>case mqtt::TIMER\<close> of the switch, and what follows the switch.\<close>

definition callback_timer :: "Config \<Rightarrow> Path \<Rightarrow> string \<Rightarrow> HR20 \<Rightarrow> MQTTPublisher \<Rightarrow> MQTTPublisher" where
  "callback_timer C p val hr st =
     (if TIMER_DAYS C \<le> unat (day p) then
        callback_done p True (report (Err_arg MQTT_INVALID_TIMER_TOPIC (uint (day p OR 0x10))) st)
      else if TIMER_SLOTS_PER_DAY C \<le> unat (slot p) then
        callback_done p True (report (Err_arg MQTT_INVALID_TIMER_TOPIC (uint (slot p OR 0x20))) st)
      else if timer_topic p = TIMER_MODE then
        dispatch_setter p (Set_timer_mode (day p) (slot p)) (set_timer_mode C (day p) (slot p))
          val hr st
      else if timer_topic p = TIMER_TIME then
        dispatch_setter p (Set_timer_time (day p) (slot p)) (set_timer_time C (day p) (slot p))
          val hr st
      else callback_done p True (report (Err MQTT_INVALID_TIMER_TOPIC) st))"

definition callback :: "Config \<Rightarrow> string \<Rightarrow> string \<Rightarrow> MQTTPublisher \<Rightarrow> MQTTPublisher" where
  "callback C tpc payload st =
     (let p = parse (path_prefix C) tpc in
      if \<not> valid p then report (Err MQTT_INVALID_TOPIC) st
      else if \<not> setter p then report (Err MQTT_INVALID_TOPIC) st
      else
        case model st (unat (addr p)) of
          None \<Rightarrow> report (Err MQTT_CALLBACK_BAD_ADDR) st
        | Some hr \<Rightarrow>
            if topic p = REQ_TMP then
              dispatch_setter p Set_temp_wanted (temp_wanted_set_requested_from_str C) payload hr st
            else if topic p = MODE then
              dispatch_setter p Set_auto_mode (auto_mode_set_requested_from_str C) payload hr st
            else if topic p = LOCK then
              dispatch_setter p Set_menu_locked (menu_locked_set_requested_from_str C) payload hr st
            else if topic p = TIMER then callback_timer C p payload hr st
            else report (Err MQTT_INVALID_TOPIC) st)"

subsection \<open>update\<close>

text \<open>
  \<open>client.loop()\<close> hands every message that has arrived to \<open>callback\<close>; the messages
  (topic and payload) that arrive during one call are an argument of \<open>update\<close>.
\<close>

definition client_loop ::
  "Config \<Rightarrow> (string \<times> string) list \<Rightarrow> MQTTPublisher \<Rightarrow> MQTTPublisher" where
  "client_loop C inbound st = fold (\<lambda>(t, v). callback C t v) inbound st"

definition update ::
  "Config \<Rightarrow> int \<Rightarrow> (string \<times> string) list \<Rightarrow> MQTTPublisher \<Rightarrow> MQTTPublisher" where
  "update C now inbound st0 =
     (let (ready, st) = reconnect C now st0 in
      if \<not> ready then st
      else
        let st = client_loop C inbound st in
        if states st ! unat (pub_addr st) = 0 then next_client C st
        else if state_maj st = STM_FREQ then publish_frequent C st
        else if state_maj st = STM_TIMER then publish_timers C st
        else next_client C st)"

section \<open>Notions used to state the properties\<close>

text \<open>
  A configured prefix that \<open>compose\<close> and \<open>parse\<close> agree on: not empty, not ending
  in a separator, and short enough for the eight-bit token length.
\<close>

definition prefix_ok :: "string \<Rightarrow> bool" where
  "prefix_ok pfx = (pfx \<noteq> [] \<and> last pfx \<noteq> SEPARATOR \<and> length pfx < 256)"

text \<open>
  The number that a string of decimal digits denotes.
\<close>

definition decval :: "string \<Rightarrow> nat" where
  "decval ds = foldl (\<lambda>v c. v * 10 + (of_char c - of_char (CHR ''0''))) 0 ds"

text \<open>
  A valid Path: an address in 1..31 and a real topic; day, slot and timer topic are
  unset unless the topic is TIMER, where day and slot are below 8 and the timer topic
  is TIME or MODE.
\<close>

definition Path_valid :: "Path \<Rightarrow> bool" where
  "Path_valid p =
     (1 \<le> addr p \<and> addr p \<le> 31 \<and> topic p \<noteq> INVALID_TOPIC
      \<and> (if topic p = TIMER
          then day p < 8 \<and> slot p < 8
               \<and> (timer_topic p = TIMER_TIME \<or> timer_topic p = TIMER_MODE)
          else day p = 0 \<and> slot p = 0 \<and> timer_topic p = TIMER_NONE))"


text \<open>
  The names a topic string can end with when \<open>parse\<close> accepts it.
\<close>

definition topic_names :: "string list" where
  "topic_names =
     [S_AVG_TMP, S_BAT, S_ERR, S_LOCK, S_MODE, S_REQ_TMP, S_VALVE_WTD, S_WND, S_LAST_SEEN,
      S_STATE, S_TIMER_TIME, S_TIMER_MODE]"

text \<open>
  The prefix as \<open>skip_prefix\<close> compares it: without one leading separator.
\<close>

definition drop_leading_separator :: "string \<Rightarrow> string" where
  "drop_leading_separator pfx = (case pfx of [] \<Rightarrow> [] | c # cs \<Rightarrow> if c = SEPARATOR then cs else pfx)"





text \<open>
  The scheduler cursor: address, major state and minor state.
\<close>

definition cursor :: "MQTTPublisher \<Rightarrow> u8 \<times> u8 \<times> u8" where
  "cursor st = (pub_addr st, state_maj st, state_min st)"

text \<open>
  The number of publish calls made to the transport so far.
\<close>

definition attempts :: "MQTTPublisher \<Rightarrow> nat" where
  "attempts st = length (publish_calls (client st))"

text \<open>
  Two publisher states that differ at most in the reports and in the devices'
  contents: same transport, same change masks, same cursor, same devices present.
\<close>

definition same_frame :: "MQTTPublisher \<Rightarrow> MQTTPublisher \<Rightarrow> bool" where
  "same_frame st st' =
     (client st' = client st \<and> states st' = states st \<and> cursor st' = cursor st
      \<and> last_conn st' = last_conn st \<and> (\<forall>a. model st' a = None \<longleftrightarrow> model st a = None))"

text \<open>
  The address after \<open>a\<close>, wrapping to 0 at \<open>MAX_HR_ADDR\<close>.
\<close>

definition next_addr :: "Config \<Rightarrow> u8 \<Rightarrow> u8" where
  "next_addr C a = (if MAX_HR_ADDR C \<le> unat (a + 1) then 0 else a + 1)"

text \<open>
  The successor position of the cursor. In the frequent walk the minor state counts
  through the values 0 to 8 (and 9 with \<open>MQTT_JSON\<close>) while the frequent bit is set;
  then the walk goes on to the timers of the same address. In the timer walk the minor
  state counts through the 64 day/slot pairs while a timer bit is set; then the walk
  goes on to the next address.
\<close>

definition successor :: "Config \<Rightarrow> MQTTPublisher \<Rightarrow> u8 \<times> u8 \<times> u8" where
  "successor C st =
     (let a = pub_addr st; m = state_min st; chg = states st ! unat a in
      if state_maj st = STM_FREQ then
        if chg AND CHANGE_FREQUENT C \<noteq> 0 \<and> (m \<le> 8 \<or> (MQTT_JSON C \<and> m = 9))
        then (a, STM_FREQ, m + 1)
        else (a, STM_TIMER, 0)
      else if state_maj st = STM_TIMER then
        if chg AND CHANGE_TIMER_MASK C \<noteq> 0 \<and> drop_bit 3 m < 8
        then (a, STM_TIMER, m + 1)
        else (next_addr C a, STM_FREQ, 0)
      else (next_addr C a, STM_FREQ, 0))"

section \<open>An instance of the parameters and some states\<close>

text \<open>
  The constants of config.h and master.h are parameters of the model. The instance
  below gives them values to evaluate the model on: 32 addresses, a retry interval of
  10, bit 0 of a change mask for the frequent group and bits 1 to 8 for the timer
  days, 8 days of 8 slots, the prefix \<open>hr20\<close>, and setters that accept every
  non-empty payload. \<open>example_client conn ok\<close> is a transport that is connected or
  not and whose calls all report \<open>ok\<close>; \<open>example_publisher\<close> is a publisher at address
  3 with the given transport, devices, change mask of address 3, major and minor state.
\<close>

definition example_value :: CachedValue where
  "example_value = \<lparr>published = False, remote_valid = True, to_str = ''1''\<rparr>"

definition example_slot :: TimerSlot where
  "example_slot =
     \<lparr>slot_published = False, slot_remote_valid = True, mode_str = ''1'', time_str = ''06:00''\<rparr>"

definition example_device :: HR20 where
  "example_device =
     \<lparr>auto_mode = example_value, menu_locked = example_value, mode_window = example_value,
      temp_avg = example_value, bat_avg = example_value, temp_wanted = example_value,
      cur_valve_wtd = example_value, ctl_err = example_value, last_contact = 0,
      timers = (\<lambda>d s. example_slot)\<rparr>"

definition example_config :: Config where
  "example_config =
     \<lparr>MAX_HR_ADDR = 32, MQTT_RECONNECT_TIME = 10, CHANGE_FREQUENT = 1,
      CHANGE_TIMER_MASK = 0x1FE,
      change_get_timer_mask = (\<lambda>m. ucast (drop_bit 1 m)),
      timer_day_2_change = (\<lambda>d. push_bit (Suc d) 1),
      TIMER_DAYS = 8, TIMER_SLOTS_PER_DAY = 8, MQTT_JSON = False,
      path_prefix = ''hr20'', mqtt_client_id = ''hr20'', mqtt_user = [], mqtt_pass = [],
      sizeof_mqtt_user = 32, append_client_attr = (\<lambda>hr. []),
      temp_wanted_set_requested_from_str = (\<lambda>v hr. (v \<noteq> [], hr)),
      auto_mode_set_requested_from_str = (\<lambda>v hr. (v \<noteq> [], hr)),
      menu_locked_set_requested_from_str = (\<lambda>v hr. (v \<noteq> [], hr)),
      set_timer_mode = (\<lambda>d s v hr. (v \<noteq> [], hr)),
      set_timer_time = (\<lambda>d s v hr. (v \<noteq> [], hr))\<rparr>"

definition example_client :: "bool \<Rightarrow> bool \<Rightarrow> PubSubClient" where
  "example_client conn ok =
     \<lparr>is_connected = conn, connect_result = (\<lambda>n. ok), publish_result = (\<lambda>n. ok),
      connect_calls = [], subscribe_calls = [], publish_calls = []\<rparr>"

definition example_publisher ::
  "PubSubClient \<Rightarrow> (nat \<Rightarrow> HR20 option) \<Rightarrow> u32 \<Rightarrow> u8 \<Rightarrow> u8 \<Rightarrow> MQTTPublisher" where
  "example_publisher cl m msk maj mn =
     \<lparr>client = cl, model = m, states = (replicate 32 0)[3 := msk], pub_addr = 3,
      state_maj = maj, state_min = mn, last_conn = 0, reports = []\<rparr>"

section \<open>Properties of the topic path codec\<close>

lemma token_len_le: "token_len p \<le> length p"
  by (induction p) auto

lemma token_len_append_sep: "token_len (a @ SEPARATOR # r) = token_len a"
  by (induction a) auto

lemma token_len_no_sep: "SEPARATOR \<notin> set a \<Longrightarrow> token_len a = length a"
  by (induction a) auto

lemma token_len_drop: "drop (token_len a) a = [] \<or> hd (drop (token_len a) a) = SEPARATOR"
  by (induction a) auto

lemma token_len_full: "token_len a = length a \<Longrightarrow> SEPARATOR \<notin> set a"
proof (induction a)
  case Nil
  then show ?case by simp
next
  case (Cons c cs)
  then show ?case by (auto split: if_splits)
qed

lemma unat_u8_small: "n < 256 \<Longrightarrow> unat (of_nat n :: u8) = n"
  by (simp add: unat_of_nat)

lemma skip_prefix_loop_own:
  "fs \<noteq> [] \<Longrightarrow> last fs \<noteq> SEPARATOR \<Longrightarrow> length fs < 256 \<Longrightarrow> rest \<noteq> []
   \<Longrightarrow> skip_prefix_loop (Some (fs @ SEPARATOR # rest)) (Some fs) = Some rest"
proof (induction fs rule: length_induct)
  case (1 fs)
  let ?n = "token_len fs"
  have n_le: "?n \<le> length fs" by (rule token_len_le)
  then have n_small: "?n < 256" using "1.prems" by simp
  have un: "unat (of_nat ?n :: u8) = ?n" using n_small by (rule unat_u8_small)
  have tp: "token (fs @ SEPARATOR # rest) = (fs @ SEPARATOR # rest, of_nat ?n)"
    by (simp add: token_def token_len_append_sep)
  have tf: "token fs = (fs, of_nat ?n)" by (simp add: token_def)
  have cmp: "cmp_tokens (token (fs @ SEPARATOR # rest)) (token fs) \<noteq> None"
    using n_le by (simp add: tp tf cmp_tokens_def strncmp_eq_def un)
  have endp: "token_end (token (fs @ SEPARATOR # rest)) = drop ?n fs @ SEPARATOR # rest"
    using n_le by (simp add: tp token_end_def un)
  have endf: "token_end (token fs) = drop ?n fs"
    by (simp add: tf token_end_def un)
  have step: "skip_prefix_loop (Some (fs @ SEPARATOR # rest)) (Some fs)
      = skip_prefix_loop (skip_token (token (fs @ SEPARATOR # rest))) (skip_token (token fs))"
    using cmp by (auto split: option.splits)
  show ?case
  proof (cases "drop ?n fs")
    case Nil
    have "skip_token (token fs) = None"
      by (simp add: skip_token_def endf Nil skip_separator_def deref_def SEPARATOR_def)
    moreover have "skip_token (token (fs @ SEPARATOR # rest)) = Some rest"
      using "1.prems"(4) by (simp add: skip_token_def endp Nil skip_separator_def deref_def)
    ultimately show ?thesis using step by simp
  next
    case (Cons c fs')
    have c: "c = SEPARATOR" using token_len_drop [of fs] Cons by simp
    have fs_eq: "fs = take ?n fs @ SEPARATOR # fs'"
      using Cons c by (metis append_take_drop_id)
    have ne: "fs' \<noteq> []"
    proof
      assume "fs' = []"
      then have "last fs = SEPARATOR" using fs_eq by (metis last_snoc)
      then show False using "1.prems"(2) by simp
    qed
    have lastf: "last fs' \<noteq> SEPARATOR"
      using fs_eq ne "1.prems"(2) by (metis last_appendR last_ConsR list.distinct(1))
    have len: "length fs' < length fs"
      using fs_eq by (metis add_Suc_right length_Cons length_append less_add_Suc2)
    have sf: "skip_token (token fs) = Some fs'"
      using ne by (simp add: skip_token_def endf Cons c skip_separator_def deref_def)
    have sp: "skip_token (token (fs @ SEPARATOR # rest)) = Some (fs' @ SEPARATOR # rest)"
      by (simp add: skip_token_def endp Cons c skip_separator_def deref_def)
    have "skip_prefix_loop (Some (fs' @ SEPARATOR # rest)) (Some fs') = Some rest"
      using "1.IH" len ne lastf "1.prems"(3,4) by simp
    then show ?thesis using step sf sp by simp
  qed
qed

lemma skip_prefix_own:
  assumes "prefix_ok pfx" and "rest \<noteq> []"
  shows "skip_prefix (pfx @ SEPARATOR # rest) pfx = Some rest"
proof (cases "hd pfx = SEPARATOR")
  case False
  then have a: "skip_separator (Some pfx) (Some pfx) = Some pfx"
    using assms(1) by (cases pfx) (auto simp: skip_separator_def deref_def prefix_ok_def)
  have b: "skip_separator (Some (pfx @ SEPARATOR # rest)) (Some (pfx @ SEPARATOR # rest))
        = Some (pfx @ SEPARATOR # rest)"
    using False assms(1) by (cases pfx) (auto simp: skip_separator_def deref_def prefix_ok_def)
  show ?thesis
    unfolding skip_prefix_def a b
    using assms by (intro skip_prefix_loop_own) (auto simp: prefix_ok_def)
next
  case True
  then obtain fs where pfx: "pfx = SEPARATOR # fs"
    using assms(1) by (cases pfx) (auto simp: prefix_ok_def)
  have ne: "fs \<noteq> []" using assms(1) pfx by (auto simp: prefix_ok_def)
  have a: "skip_separator (Some pfx) (Some pfx) = Some fs"
    using ne by (simp add: pfx skip_separator_def deref_def)
  have b: "skip_separator (Some (pfx @ SEPARATOR # rest)) (Some (pfx @ SEPARATOR # rest))
        = Some (fs @ SEPARATOR # rest)"
    by (simp add: pfx skip_separator_def deref_def)
  have "last fs \<noteq> SEPARATOR" "length fs < 256"
    using assms(1) ne by (auto simp: prefix_ok_def pfx)
  then show ?thesis
    unfolding skip_prefix_def a b
    using ne assms(2) by (intro skip_prefix_loop_own)
qed

lemma digit_char_cases:
  "n < 10 \<Longrightarrow> digit_char n \<in> set ''0123456789'' \<and> of_char (digit_char n) = 48 + n"
proof -
  assume "n < 10"
  then consider "n = 0" | "n = 1" | "n = 2" | "n = 3" | "n = 4" | "n = 5" | "n = 6"
    | "n = 7" | "n = 8" | "n = 9" by atomize_elim arith
  then show ?thesis by cases (simp_all add: digit_char_def)
qed

lemma is_digit_digit_char: "n < 10 \<Longrightarrow> is_digit (digit_char n)"
  using digit_char_cases [of n] by (simp add: is_digit_def)

lemma of_char_digit_char: "n < 10 \<Longrightarrow> of_char (digit_char n) - (48::nat) = n"
  using digit_char_cases [of n] by simp

lemma is_digit_not_sep: "is_digit c \<Longrightarrow> c \<noteq> SEPARATOR"
  by (auto simp: is_digit_def SEPARATOR_def)

lemma is_digit_not_s: "is_digit c \<Longrightarrow> c \<noteq> CHR ''s''"
  by (auto simp: is_digit_def)

lemma dec_digits: "\<forall>c \<in> set (dec n). is_digit c"
proof (induction n rule: dec.induct)
  case (1 n)
  show ?case
  proof (cases "n < 10")
    case True
    then show ?thesis by (simp add: dec.simps [of n] is_digit_digit_char)
  next
    case False
    then have "\<forall>c \<in> set (dec (n div 10)). is_digit c" using 1 by simp
    moreover have "is_digit (digit_char (n mod 10))" by (simp add: is_digit_digit_char)
    ultimately show ?thesis using False by (simp add: dec.simps [of n])
  qed
qed

lemma dec_nonempty: "dec n \<noteq> []"
  by (simp add: dec.simps [of n])

lemma decval_snoc:
  "decval (ds @ [c]) = decval ds * 10 + (of_char c - of_char (CHR ''0''))"
  by (simp add: decval_def)

lemma decval_dec: "decval (dec n) = n"
proof (induction n rule: dec.induct)
  case (1 n)
  show ?case
  proof (cases "n < 10")
    case True
    then show ?thesis by (simp add: dec.simps [of n] decval_def of_char_digit_char)
  next
    case False
    then have "decval (dec (n div 10)) = n div 10" using 1 by simp
    then show ?thesis using False
      by (simp add: dec.simps [of n] decval_snoc of_char_digit_char)
  qed
qed

lemma length_dec: "n < 256 \<Longrightarrow> length (dec n) \<le> 3"
proof -
  assume n: "n < 256"
  have a: "\<And>m. m < 10 \<Longrightarrow> length (dec m) = 1" by (simp add: dec.simps)
  have b: "\<And>m. m < 100 \<Longrightarrow> length (dec m) \<le> 2"
  proof -
    fix m :: nat assume "m < 100"
    then show "length (dec m) \<le> 2"
      using a [of "m div 10"] by (cases "m < 10") (simp_all add: dec.simps [of m])
  qed
  show ?thesis using b [of "n div 10"] n
    by (cases "n < 10") (simp_all add: dec.simps [of n])
qed

lemma to_num_loop_digits:
  "\<forall>c \<in> set ds. is_digit c \<Longrightarrow>
   to_num_loop (length ds) acc (ds @ r) = (foldl (\<lambda>a c. a * 10 + digit_val c) acc ds, r)"
  by (induction ds arbitrary: acc) auto

lemma foldl_digit_val:
  "foldl (\<lambda>a c. a * 10 + digit_val c) (of_nat v) ds
   = of_nat (foldl (\<lambda>v c. v * 10 + (of_char c - of_char (CHR ''0''))) v ds)"
proof (induction ds arbitrary: v)
  case Nil
  then show ?case by simp
next
  case (Cons c ds)
  show ?case using Cons.IH [of "v * 10 + (of_char c - of_char (CHR ''0''))"]
    by (simp add: digit_val_def)
qed

lemma to_num_digits:
  assumes "\<forall>c \<in> set ds. is_digit c" and "length ds < 256"
  shows "to_num (ds @ r) (of_nat (length ds)) = (of_nat (decval ds), r)"
proof -
  have "to_num (ds @ r) (of_nat (length ds)) = to_num_loop (length ds) 0 (ds @ r)"
    using assms(2) by (simp add: to_num_def unat_u8_small)
  also have "\<dots> = (foldl (\<lambda>a c. a * 10 + digit_val c) (of_nat 0) ds, r)"
    using assms(1) by (simp add: to_num_loop_digits)
  also have "\<dots> = (of_nat (decval ds), r)"
    unfolding foldl_digit_val decval_def by simp
  finally show ?thesis .
qed

lemma token_digits_sep:
  "\<forall>c \<in> set ds. is_digit c \<Longrightarrow> token (ds @ SEPARATOR # r) = (ds @ SEPARATOR # r, of_nat (length ds))"
  by (simp add: token_def token_len_append_sep token_len_no_sep is_digit_not_sep)
   (metis is_digit_not_sep token_len_no_sep)

lemma cmp_tokens_set_digit:
  "\<forall>c \<in> set ds. is_digit c \<Longrightarrow> cmp_tokens (token (ds @ SEPARATOR # r)) S_SET_TOK = None"
proof (cases ds)
  case Nil
  then show ?thesis by (simp add: cmp_tokens_def token_def S_SET_TOK_def S_defs)
next
  case (Cons c cs)
  assume "\<forall>c \<in> set ds. is_digit c"
  then have "c \<noteq> CHR ''s''" using Cons is_digit_not_s by simp
  then show ?thesis
    by (auto simp: Cons cmp_tokens_def token_def S_SET_TOK_def S_defs strncmp_eq_def
        unat_of_nat take_Suc_conv_app_nth split: if_splits)
qed

lemma parse_own_prefix:
  "prefix_ok pfx \<Longrightarrow> rest \<noteq> [] \<Longrightarrow> parse pfx (pfx @ SEPARATOR # rest) = parse_body rest"
  by (simp add: parse_def skip_prefix_own)

lemma parse_body_digits:
  "\<forall>c \<in> set ds. is_digit c \<Longrightarrow>
   parse_body (ds @ SEPARATOR # r) = parse_addr False (ds @ SEPARATOR # r) (token (ds @ SEPARATOR # r))"
  by (simp add: parse_body_def cmp_tokens_set_digit)

lemma parse_body_set:
  "r \<noteq> [] \<Longrightarrow> parse_body (S_SET_MODE @ SEPARATOR # r) = parse_addr True r (token r)"
  by (simp add: parse_body_def cmp_tokens_def token_def S_SET_TOK_def S_defs strncmp_eq_def
      SEPARATOR_def skip_token_def token_end_def skip_separator_def deref_def)

lemma parse_addr_digits:
  assumes "\<forall>c \<in> set ds. is_digit c" and "length ds < 256"
  shows "parse_addr sm (ds @ SEPARATOR # r) (token (ds @ SEPARATOR # r)) =
     (if parse_topic r = INVALID_TOPIC then Path_default
      else if parse_topic r = TIMER then parse_timer (of_nat (decval ds)) sm r
      else Path_make (of_nat (decval ds)) (parse_topic r) sm TIMER_NONE 0 0)"
  using assms
  by (simp add: parse_addr_def token_digits_sep to_num_digits deref_def Let_def)

lemma parse_topic_str:
  "t \<noteq> INVALID_TOPIC \<Longrightarrow> t \<noteq> TIMER \<Longrightarrow> parse_topic (topic_str t) = t"
  by (cases t) (simp_all add: parse_topic_def S_defs)

lemma parse_topic_timer_iff: "parse_topic s = TIMER \<longleftrightarrow> take 5 s = ''timer''"
  by (cases s) (auto simp: parse_topic_def S_defs)

lemma parse_topic_exact:
  "t \<noteq> INVALID_TOPIC \<Longrightarrow> t \<noteq> TIMER \<Longrightarrow> parse_topic s = t \<longleftrightarrow> s = topic_str t"
  by (cases s; cases t) (auto simp: parse_topic_def S_defs)

lemma parse_timer_digits:
  assumes seg: "SEPARATOR \<notin> set seg" "length seg < 256"
    and d1: "\<forall>c \<in> set ds1. is_digit c" "length ds1 < 256"
    and d2: "\<forall>c \<in> set ds2. is_digit c" "length ds2 < 256"
  shows "parse_timer a sm (seg @ SEPARATOR # ds1 @ SEPARATOR # ds2 @ SEPARATOR # r) =
     (if parse_timer_topic (Some r) = INVALID_TIMER_TOPIC then Path_default
      else Path_make a TIMER sm (parse_timer_topic (Some r)) (of_nat (decval ds1)) (of_nat (decval ds2)))"
proof -
  have e: "token_end (token (seg @ SEPARATOR # ds1 @ SEPARATOR # ds2 @ SEPARATOR # r))
      = SEPARATOR # ds1 @ SEPARATOR # ds2 @ SEPARATOR # r"
    using seg by (simp add: token_def token_end_def token_len_append_sep token_len_no_sep unat_u8_small)
  show ?thesis
    unfolding parse_timer_def e
    using d1 d2
    by (simp add: deref_def token_digits_sep to_num_digits Let_def)
qed

lemma dec_small: "n < 256 \<Longrightarrow> length (dec n) < 256"
  using length_dec [of n] by simp

lemma dec_u8_small: "length (dec (unat (w :: u8))) < 256"
proof -
  have "unat w < 256" using unsigned_less [of w, where ?'a = nat] by simp
  then show ?thesis by (rule dec_small)
qed

lemma of_nat_decval_dec: "(of_nat (decval (dec (unat (w :: u8)))) :: u8) = w"
  by (simp add: decval_dec)

text \<open>
  C2 (amended). For a configured prefix that is not empty, does not end in a separator
  and has fewer than 256 characters, and for every valid Path \<open>p\<close>, parsing the
  composed topic yields \<open>p\<close> again: address, topic, setter flag and, for a timer
  path, day, slot and timer topic.
\<close>

theorem compose_parse_roundtrip:
  assumes pfx: "prefix_ok pfx" and p: "Path_valid p"
  shows "parse pfx (compose pfx p) = p"
proof -
  let ?a = "dec (unat (addr p))"
  let ?tail = "if topic p = TIMER then
            [SEPARATOR] @ dec (unat (day p)) @ [SEPARATOR] @ dec (unat (slot p))
              @ [SEPARATOR] @ (case timer_topic_str (timer_topic p) of None \<Rightarrow> [] | Some n \<Rightarrow> n)
          else []"
  let ?r = "topic_str (topic p) @ ?tail"
  let ?body = "?a @ SEPARATOR # ?r"
  have da: "\<forall>c \<in> set ?a. is_digit c" "length ?a < 256"
    by (simp_all add: dec_digits dec_u8_small)
  have body: "parse_addr (setter p) ?body (token ?body) = p"
  proof (cases "topic p = TIMER")
    case False
    then have "parse_topic ?r = topic p"
      using p by (simp add: parse_topic_str Path_valid_def)
    then show ?thesis
      using False p da
      by (simp add: parse_addr_digits Path_valid_def Path_make_def of_nat_decval_dec)
  next
    case True
    let ?d = "dec (unat (day p))" and ?s = "dec (unat (slot p))"
    obtain n where n: "timer_topic_str (timer_topic p) = Some n"
      "parse_timer_topic (Some n) = timer_topic p"
      using p True by (auto simp: Path_valid_def parse_timer_topic_def S_defs)
    have r: "?r = S_TIMER @ SEPARATOR # ?d @ SEPARATOR # ?s @ SEPARATOR # n"
      using True n by simp
    have pt: "parse_topic ?r = TIMER"
      unfolding r by (simp add: parse_topic_timer_iff S_defs)
    have tne: "timer_topic p \<noteq> INVALID_TIMER_TOPIC"
      using p True by (auto simp: Path_valid_def)
    have "parse_timer (addr p) (setter p) ?r = p"
      unfolding r using n tne True
      by (subst parse_timer_digits)
         (simp_all add: dec_digits dec_u8_small S_defs SEPARATOR_def Path_make_def of_nat_decval_dec)
    then show ?thesis
      using da pt by (simp add: parse_addr_digits of_nat_decval_dec)
  qed
  show ?thesis
  proof (cases "setter p")
    case False
    have "compose pfx p = pfx @ SEPARATOR # ?body"
      using False by (simp add: compose_def)
    then have "parse pfx (compose pfx p) = parse_body ?body"
      using pfx by (simp add: parse_own_prefix dec_nonempty)
    also have "\<dots> = parse_addr False ?body (token ?body)"
      using da(1) by (rule parse_body_digits)
    finally show ?thesis using body False by simp
  next
    case True
    have "compose pfx p = pfx @ SEPARATOR # (S_SET_MODE @ SEPARATOR # ?body)"
      using True by (simp add: compose_def)
    then have "parse pfx (compose pfx p) = parse_body (S_SET_MODE @ SEPARATOR # ?body)"
      using pfx by (simp add: parse_own_prefix S_defs)
    also have "\<dots> = parse_addr True ?body (token ?body)"
      by (rule parse_body_set) (simp add: dec_nonempty)
    finally show ?thesis using body True by simp
  qed
qed


lemma parse_timer_topic_name:
  "parse_timer_topic (Some r) \<noteq> INVALID_TIMER_TOPIC \<Longrightarrow> r = S_TIMER_TIME \<or> r = S_TIMER_MODE"
  by (auto simp: parse_timer_topic_def split: option.splits list.splits if_splits)

lemma parse_topic_name:
  "parse_topic r \<noteq> INVALID_TOPIC \<Longrightarrow> parse_topic r \<noteq> TIMER \<Longrightarrow> r = topic_str (parse_topic r)"
  using parse_topic_exact [of "parse_topic r" r] by simp





subsection \<open>The parser only moves forward in its input\<close>

lemma suffix_skip_separator:
  "skip_separator (Some s) other = Some r \<Longrightarrow> other = None \<or> other = Some s \<Longrightarrow> suffix r s"
  by (cases s) (auto simp: skip_separator_def deref_def suffix_Cons split: if_splits)

lemma suffix_token_end: "suffix (token_end (token p)) p"
  by (simp add: token_end_def token_def suffix_drop)

lemma suffix_skip_token: "skip_token (token p) = Some r \<Longrightarrow> suffix r p"
  unfolding skip_token_def
  using suffix_skip_separator [of "token_end (token p)" None r] suffix_token_end [of p]
  by (auto intro: suffix_order.trans)

lemma suffix_to_num_loop: "to_num_loop n acc p = (v, r) \<Longrightarrow> suffix r p"
  by (induction n acc p rule: to_num_loop.induct) (auto simp: suffix_Cons split: if_splits)

lemma suffix_to_num: "to_num p cnt = (v, r) \<Longrightarrow> suffix r p"
  unfolding to_num_def by (rule suffix_to_num_loop)

lemma suffix_skip_prefix_loop:
  "skip_prefix_loop p pfx = Some r \<Longrightarrow> \<exists>s. p = Some s \<and> suffix r s"
proof (induction p pfx rule: skip_prefix_loop.induct)
  case (1 p pfx)
  from "1.prems" obtain y where c: "cmp_tokens (token p) (token pfx) = Some y"
    and r: "skip_prefix_loop (skip_token (token p)) (skip_token (token pfx)) = Some r"
    by (auto split: option.splits)
  from "1.IH" [OF c r] obtain s where s: "skip_token (token p) = Some s" "suffix r s" by auto
  then show ?case using suffix_skip_token [of p s] by (auto intro: suffix_order.trans)
next
  case (2 pfx)
  then show ?case by simp
next
  case (3 p)
  then show ?case by simp
qed

lemma suffix_skip_prefix: "skip_prefix p pfx = Some r \<Longrightarrow> suffix r p"
proof -
  assume a: "skip_prefix p pfx = Some r"
  then obtain s where s: "skip_separator (Some p) (Some p) = Some s" "suffix r s"
    unfolding skip_prefix_def by (auto dest: suffix_skip_prefix_loop)
  then have "suffix s p" by (auto dest: suffix_skip_separator)
  then show ?thesis using s(2) by (auto intro: suffix_order.trans)
qed

lemma topic_str_names: "t \<noteq> INVALID_TOPIC \<Longrightarrow> t \<noteq> TIMER \<Longrightarrow> topic_str t \<in> set topic_names"
  by (cases t) (simp_all add: topic_names_def)

lemma parse_timer_ends:
  assumes "parse_timer a sm pos \<noteq> Path_default"
  shows "\<exists>r \<in> set topic_names. suffix r pos"
proof -
  let ?p1 = "token_end (token pos)"
  obtain d p2 where d: "to_num (tl ?p1) (snd (token (tl ?p1))) = (d, p2)"
    by (cases "to_num (tl ?p1) (snd (token (tl ?p1)))")
  obtain s p3 where s: "to_num (tl p2) (snd (token (tl p2))) = (s, p3)"
    by (cases "to_num (tl p2) (snd (token (tl p2)))")
  have tt: "parse_timer_topic (Some (tl p3)) \<noteq> INVALID_TIMER_TOPIC"
    using assms by (auto simp: parse_timer_def Let_def d s split: if_splits)
  then have "tl p3 \<in> set topic_names"
    using parse_timer_topic_name [of "tl p3"] by (auto simp: topic_names_def)
  moreover have "suffix (tl p3) pos"
  proof -
    have "suffix (tl p3) p3" by (rule suffix_tl)
    also have "suffix p3 (tl p2)" using s by (rule suffix_to_num)
    also have "suffix (tl p2) p2" by (rule suffix_tl)
    also have "suffix p2 (tl ?p1)" using d by (rule suffix_to_num)
    also have "suffix (tl ?p1) ?p1" by (rule suffix_tl)
    also have "suffix ?p1 pos" by (rule suffix_token_end)
    finally show ?thesis .
  qed
  ultimately show ?thesis by blast
qed

lemma parse_addr_ends:
  assumes "parse_addr sm pos tok \<noteq> Path_default"
  shows "\<exists>r \<in> set topic_names. suffix r pos"
proof -
  obtain a p1 where a: "to_num pos (snd tok) = (a, p1)"
    by (cases "to_num pos (snd tok)")
  have s1: "suffix (tl p1) pos"
    using suffix_order.trans [OF suffix_tl [of p1] suffix_to_num [OF a]] .
  have ti: "parse_topic (tl p1) \<noteq> INVALID_TOPIC"
    using assms by (auto simp: parse_addr_def Let_def a split: if_splits)
  show ?thesis
  proof (cases "parse_topic (tl p1) = TIMER")
    case True
    then have "parse_timer a sm (tl p1) \<noteq> Path_default"
      using assms ti by (auto simp: parse_addr_def Let_def a split: if_splits)
    then obtain r where "r \<in> set topic_names" "suffix r (tl p1)"
      using parse_timer_ends by blast
    then show ?thesis using s1 by (auto intro: suffix_order.trans)
  next
    case False
    then have "tl p1 \<in> set topic_names"
      using ti parse_topic_name [of "tl p1"] topic_str_names [of "parse_topic (tl p1)"] by simp
    then show ?thesis using s1 by blast
  qed
qed

lemma parse_body_ends:
  assumes "parse_body pos \<noteq> Path_default"
  shows "\<exists>r \<in> set topic_names. suffix r pos"
proof (cases "cmp_tokens (token pos) S_SET_TOK \<noteq> None")
  case False
  then show ?thesis
    using assms parse_addr_ends [of False pos "token pos"] by (auto simp: parse_body_def Let_def)
next
  case True
  then obtain pos' where p: "skip_token (token pos) = Some pos'"
    and q: "parse_addr True pos' (token pos') \<noteq> Path_default"
    using assms by (auto simp: parse_body_def Let_def split: option.splits)
  from parse_addr_ends [OF q] obtain r where "r \<in> set topic_names" "suffix r pos'" by blast
  then show ?thesis using suffix_skip_token [OF p] by (auto intro: suffix_order.trans)
qed

lemma parse_ends:
  assumes "parse pfx s \<noteq> Path_default"
  shows "\<exists>r \<in> set topic_names. suffix r s"
proof -
  from assms obtain pos where p: "skip_prefix s pfx = Some pos"
    and q: "parse_body pos \<noteq> Path_default"
    by (auto simp: parse_def split: option.splits if_splits)
  from parse_body_ends [OF q] obtain r where "r \<in> set topic_names" "suffix r pos" by blast
  then show ?thesis using suffix_skip_prefix [OF p] by (auto intro: suffix_order.trans)
qed

lemma no_name_ends_zzz: "r \<in> set topic_names \<Longrightarrow> \<not> suffix r (x @ ''/99/zzz'')"
proof
  assume r: "r \<in> set topic_names" and s: "suffix r (x @ ''/99/zzz'')"
  have "r \<noteq> []" using r by (auto simp: topic_names_def S_defs)
  obtain zs where zs: "x @ ''/99/zzz'' = zs @ r" using s by (auto simp: suffix_def)
  have "last (zs @ r) = last r" using \<open>r \<noteq> []\<close> by simp
  then have "last r = last (x @ ''/99/zzz'')" by (simp only: zs)
  then have "last r = CHR ''z''" by simp
  then show False using r by (auto simp: topic_names_def S_defs)
qed

lemma parse_zzz: "parse pfx (pfx @ ''/99/zzz'') = Path_default"
  using parse_ends [of pfx "pfx @ ''/99/zzz''"] no_name_ends_zzz by blast




text \<open>
  C2 as stated fails for some configured prefixes: with the prefix \<open>hr20/\<close> (a
  trailing separator), with the empty prefix and with a prefix of 256 characters the
  composed topic of the valid Path (5, MODE) does not parse back to it.
\<close>

theorem compose_parse_prefix_counterexample:
  "Path_valid (Path_make 5 MODE False TIMER_NONE 0 0)
   \<and> parse ''hr20/'' (compose ''hr20/'' (Path_make 5 MODE False TIMER_NONE 0 0))
       \<noteq> Path_make 5 MODE False TIMER_NONE 0 0
   \<and> parse [] (compose [] (Path_make 5 MODE False TIMER_NONE 0 0))
       \<noteq> Path_make 5 MODE False TIMER_NONE 0 0
   \<and> parse (replicate 256 (CHR ''a'')) (compose (replicate 256 (CHR ''a'')) (Path_make 5 MODE False TIMER_NONE 0 0))
       \<noteq> Path_make 5 MODE False TIMER_NONE 0 0"
  by code_simp

theorem compose_parse_roundtrip_witness:
  "prefix_ok ''hr20'' \<and> Path_valid (Path_make 5 TIMER True TIMER_MODE 3 4)
   \<and> compose ''hr20'' (Path_make 5 TIMER True TIMER_MODE 3 4) = ''hr20/set/5/timer/3/4/mode''
   \<and> parse ''hr20'' ''hr20/set/5/timer/3/4/mode'' = Path_make 5 TIMER True TIMER_MODE 3 4"
proof -
  have a: "prefix_ok ''hr20''" by (simp add: prefix_ok_def SEPARATOR_def)
  have b: "Path_valid (Path_make 5 TIMER True TIMER_MODE 3 4)" by (simp add: Path_valid_def Path_make_def)
  have c: "compose ''hr20'' (Path_make 5 TIMER True TIMER_MODE 3 4) = ''hr20/set/5/timer/3/4/mode''"
    by code_simp
  show ?thesis using compose_parse_roundtrip [OF a b] a b c by simp
qed

lemma parse_digits_addr:
  assumes "prefix_ok pfx" and "list_all is_digit ds" and "length ds < 256"
  shows "parse pfx (pfx @ SEPARATOR # ds @ SEPARATOR # r) =
     (if parse_topic r = INVALID_TOPIC then Path_default
      else if parse_topic r = TIMER then parse_timer (of_nat (decval ds)) False r
      else Path_make (of_nat (decval ds)) (parse_topic r) False TIMER_NONE 0 0)"
proof -
  have d: "\<forall>c \<in> set ds. is_digit c" using assms(2) by (simp add: list_all_iff)
  have "parse pfx (pfx @ SEPARATOR # ds @ SEPARATOR # r) = parse_body (ds @ SEPARATOR # r)"
    using assms(1) by (simp add: parse_own_prefix)
  also have "\<dots> = parse_addr False (ds @ SEPARATOR # r) (token (ds @ SEPARATOR # r))"
    using d by (rule parse_body_digits)
  finally show ?thesis using d assms(3) by (simp add: parse_addr_digits)
qed

text \<open>
  C10 (amended). For a configured prefix that is not empty, does not end in a
  separator and has fewer than 256 characters, an address token of fewer than 256
  decimal digits that denotes \<open>v\<close> yields the address \<open>v mod 256\<close>, with no check
  against 0..31: \<open><prefix>/257/mode\<close> parses to a valid Path with address 1, and
  \<open><prefix>/256/mode\<close> to address 0, which is not valid.
\<close>

theorem address_wraps_mod_256:
  assumes "prefix_ok pfx" and "list_all is_digit ds" and "length ds < 256"
  shows "parse pfx (pfx @ SEPARATOR # ds @ SEPARATOR # S_MODE)
           = Path_make (of_nat (decval ds)) MODE False TIMER_NONE 0 0
     \<and> unat (addr (parse pfx (pfx @ SEPARATOR # ds @ SEPARATOR # S_MODE))) = decval ds mod 256
     \<and> addr (parse pfx (pfx @ ''/257/mode'')) = 1 \<and> valid (parse pfx (pfx @ ''/257/mode''))
     \<and> addr (parse pfx (pfx @ ''/256/mode'')) = 0 \<and> \<not> valid (parse pfx (pfx @ ''/256/mode''))"
proof -
  have m: "parse_topic S_MODE = MODE" by (simp add: parse_topic_def S_defs)
  have g: "parse pfx (pfx @ SEPARATOR # ds @ SEPARATOR # S_MODE)
           = Path_make (of_nat (decval ds)) MODE False TIMER_NONE 0 0"
    using assms m by (simp add: parse_digits_addr)
  have w257: "(257 :: u8) = 1" by (simp add: word_eq_iff_unsigned [where ?'a = nat])
  have w256: "(256 :: u8) = 0" by simp
  have d257: "list_all is_digit ''257''" "list_all is_digit ''256''" by (simp_all add: is_digit_def)
  have "parse pfx (pfx @ SEPARATOR # ''257'' @ SEPARATOR # S_MODE)
      = Path_make (of_nat (decval ''257'')) MODE False TIMER_NONE 0 0"
    using parse_digits_addr [OF assms(1) d257(1), of S_MODE] m by simp
  then have a: "parse pfx (pfx @ ''/257/mode'') = Path_make 1 MODE False TIMER_NONE 0 0"
    by (simp add: SEPARATOR_def S_defs decval_def w257)
  have "parse pfx (pfx @ SEPARATOR # ''256'' @ SEPARATOR # S_MODE)
      = Path_make (of_nat (decval ''256'')) MODE False TIMER_NONE 0 0"
    using parse_digits_addr [OF assms(1) d257(2), of S_MODE] m by simp
  then have b: "parse pfx (pfx @ ''/256/mode'') = Path_make 0 MODE False TIMER_NONE 0 0"
    by (simp add: SEPARATOR_def S_defs decval_def w256)
  show ?thesis
    unfolding g a b by (simp add: Path_make_def valid_def unat_of_nat)
qed

theorem address_wraps_mod_256_witness:
  "prefix_ok ''hr20'' \<and> list_all is_digit ''99'' \<and> decval ''99'' = 99
   \<and> parse ''hr20'' ''hr20/99/mode'' = Path_make 99 MODE False TIMER_NONE 0 0
   \<and> parse ''hr20'' ''hr20/257/mode'' = Path_make 1 MODE False TIMER_NONE 0 0
   \<and> parse ''hr20'' ''hr20/256/mode'' = Path_make 0 MODE False TIMER_NONE 0 0"
proof -
  have a: "prefix_ok ''hr20''" by (simp add: prefix_ok_def SEPARATOR_def)
  have b: "list_all is_digit ''99''" by (simp add: is_digit_def)
  have c: "length ''99'' < 256" by simp
  have d: "decval ''99'' = 99" by (simp add: decval_def)
  have e: "parse ''hr20'' ''hr20/257/mode'' = Path_make 1 MODE False TIMER_NONE 0 0"
     "parse ''hr20'' ''hr20/256/mode'' = Path_make 0 MODE False TIMER_NONE 0 0"
    by code_simp+
  show ?thesis
    using address_wraps_mod_256 [OF a b c] a b d e by (simp add: SEPARATOR_def S_defs)
qed

text \<open>
  C10 as stated fails for a token of 257 digits: 256 zeros and a one denote 1, and the
  topic parses to address 0, not valid; and with the prefix \<open>hr20/\<close> the topic
  \<open><prefix>/257/mode\<close> parses to address 0.
\<close>

theorem address_long_token_counterexample:
  "list_all is_digit (replicate 256 (CHR ''0'') @ ''1'')
   \<and> decval (replicate 256 (CHR ''0'') @ ''1'') mod 256 = 1
   \<and> addr (parse ''hr20'' (''hr20/'' @ replicate 256 (CHR ''0'') @ ''1'' @ ''/mode'')) = 0
   \<and> \<not> valid (parse ''hr20'' (''hr20/'' @ replicate 256 (CHR ''0'') @ ''1'' @ ''/mode''))
   \<and> addr (parse ''hr20/'' (''hr20/'' @ ''/257/mode'')) = 0"
  by code_simp

















lemma skip_separator_self:
  "skip_separator (Some s) (Some s) = None \<or>
   skip_separator (Some s) (Some s) = Some (drop_leading_separator s)"
  by (cases s) (auto simp: skip_separator_def deref_def drop_leading_separator_def SEPARATOR_def)

lemma skip_separator_self_None:
  "skip_separator (Some s) (Some s) = None \<Longrightarrow> drop_leading_separator s = []"
  by (cases s) (auto simp: skip_separator_def deref_def drop_leading_separator_def split: if_splits)

lemma length_drop_leading_separator: "length (drop_leading_separator s) \<le> length s"
  by (cases s) (auto simp: drop_leading_separator_def)

lemma skip_prefix_loop_prefix:
  "skip_prefix_loop (Some p) (Some fs) = Some r \<Longrightarrow> length fs < 256 \<Longrightarrow> prefix fs p"
proof (induction fs arbitrary: p rule: length_induct)
  case (1 fs)
  let ?n = "token_len fs"
  have n_le: "?n \<le> length fs" by (rule token_len_le)
  then have un: "unat (of_nat ?n :: u8) = ?n" using "1.prems"(2) by (simp add: unat_u8_small)
  have tf: "token fs = (fs, of_nat ?n)" by (simp add: token_def)
  from "1.prems"(1) obtain y where c: "cmp_tokens (token p) (token fs) = Some y"
    and rec: "skip_prefix_loop (skip_token (token p)) (skip_token (token fs)) = Some r"
    by (auto split: option.splits)
  from c have sp: "snd (token p) = of_nat ?n" and tk: "take ?n p = take ?n fs"
    by (auto simp: cmp_tokens_def tf strncmp_eq_def un token_def [of p] split: if_splits)
  obtain p2 where p2: "skip_token (token p) = Some p2"
    using rec by (cases "skip_token (token p)"; cases "skip_token (token fs)") auto
  have endp: "token_end (token p) = drop ?n p"
    using sp by (simp add: token_end_def un token_def [of p])
  have dp: "drop ?n p = SEPARATOR # p2"
    using p2 unfolding skip_token_def endp
    by (cases "drop ?n p") (auto simp: skip_separator_def deref_def split: if_splits)
  have p_eq: "p = take ?n fs @ SEPARATOR # p2"
    using dp tk by (metis append_take_drop_id)
  have endf: "token_end (token fs) = drop ?n fs" by (simp add: tf token_end_def un)
  show ?case
  proof (cases "drop ?n fs")
    case Nil
    then have "fs = take ?n fs" by simp
    then show ?thesis using p_eq by (metis prefixI)
  next
    case (Cons c fs2)
    have c: "c = SEPARATOR" using token_len_drop [of fs] Cons by simp
    have fs_eq: "fs = take ?n fs @ SEPARATOR # fs2"
      using Cons c by (metis append_take_drop_id)
    show ?thesis
    proof (cases "fs2 = []")
      case True
      have "p = (take ?n fs @ [SEPARATOR]) @ p2" using p_eq by simp
      moreover have "fs = take ?n fs @ [SEPARATOR]" using fs_eq True by simp
      ultimately show ?thesis by (metis prefixI)
    next
      case False
      have sf: "skip_token (token fs) = Some fs2"
        using False by (simp add: skip_token_def endf Cons c skip_separator_def deref_def)
      have len: "length fs2 < length fs"
        using fs_eq by (metis add_Suc_right length_Cons length_append less_add_Suc2)
      have "prefix fs2 p2"
        using "1.IH" len rec "1.prems"(2) unfolding p2 sf by simp
      then obtain t where "p2 = fs2 @ t" by (auto simp: prefix_def)
      then have "p = (take ?n fs @ SEPARATOR # fs2) @ t" using p_eq by simp
      then show ?thesis using fs_eq by (metis prefixI)
    qed
  qed
qed

lemma skip_prefix_prefix:
  assumes "skip_prefix s pfx = Some r" and "length pfx < 256"
  shows "prefix (drop_leading_separator pfx) (drop_leading_separator s)"
proof (cases "skip_separator (Some pfx) (Some pfx)")
  case None
  then show ?thesis by (simp add: skip_separator_self_None)
next
  case (Some fs)
  then have fs: "fs = drop_leading_separator pfx" using skip_separator_self [of pfx] by simp
  show ?thesis
  proof (cases "skip_separator (Some s) (Some s)")
    case None
    then show ?thesis using assms(1) Some by (simp add: skip_prefix_def)
  next
    case S: (Some p)
    then have p: "p = drop_leading_separator s" using skip_separator_self [of s] by simp
    have "skip_prefix_loop (Some p) (Some fs) = Some r"
      using assms(1) Some S by (simp add: skip_prefix_def)
    moreover have "length fs < 256"
      using assms(2) length_drop_leading_separator [of pfx] fs by simp
    ultimately show ?thesis unfolding fs [symmetric] p [symmetric] by (rule skip_prefix_loop_prefix)
  qed
qed

lemma parse_prefix_mismatch:
  assumes "length pfx < 256"
    and "\<not> prefix (drop_leading_separator pfx) (drop_leading_separator s)"
  shows "parse pfx s = Path_default"
proof (cases "skip_prefix s pfx")
  case None
  then show ?thesis by (simp add: parse_def)
next
  case (Some r)
  then show ?thesis using skip_prefix_prefix [OF Some assms(1)] assms(2) by simp
qed

lemma wrongprefix_prefixes:
  "list_all (\<lambda>fs. fs = ''wrongprefix'' \<or> fs = ''wrongprefix/''
      \<or> (addr (parse fs ''wrongprefix/5/lock'') = 0
          \<and> addr (parse (SEPARATOR # fs) ''wrongprefix/5/lock'') = 0))
     (prefixes ''wrongprefix/5/lock'')"
  by code_simp

lemma wrongprefix_same:
  "addr (parse ''wrongprefix'' ''wrongprefix/5/lock'') = 5"
  "addr (parse ''/wrongprefix'' ''wrongprefix/5/lock'') = 5"
  "addr (parse ''wrongprefix/'' ''wrongprefix/5/lock'') = 5"
  "addr (parse ''/wrongprefix/'' ''wrongprefix/5/lock'') = 5"
  by code_simp+

lemma drop_leading_separator_cases:
  "pfx = drop_leading_separator pfx \<or> pfx = SEPARATOR # drop_leading_separator pfx"
  by (cases pfx) (auto simp: drop_leading_separator_def)

lemma parse_wrongprefix_exact:
  assumes "length pfx < 256"
  shows "addr (parse pfx ''wrongprefix/5/lock'') = 0 \<longleftrightarrow>
     drop_leading_separator pfx \<noteq> ''wrongprefix'' \<and> drop_leading_separator pfx \<noteq> ''wrongprefix/''"
proof
  assume a: "addr (parse pfx ''wrongprefix/5/lock'') = 0"
  show "drop_leading_separator pfx \<noteq> ''wrongprefix'' \<and> drop_leading_separator pfx \<noteq> ''wrongprefix/''"
  proof (rule ccontr)
    assume "\<not> ?thesis"
    then have "pfx \<in> {''wrongprefix'', ''/wrongprefix'', ''wrongprefix/'', ''/wrongprefix/''}"
      using drop_leading_separator_cases [of pfx] by (auto simp: SEPARATOR_def)
    then show False using a wrongprefix_same by auto
  qed
next
  assume n: "drop_leading_separator pfx \<noteq> ''wrongprefix'' \<and> drop_leading_separator pfx \<noteq> ''wrongprefix/''"
  let ?fs = "drop_leading_separator pfx"
  show "addr (parse pfx ''wrongprefix/5/lock'') = 0"
  proof (cases "prefix ?fs ''wrongprefix/5/lock''")
    case False
    have "drop_leading_separator ''wrongprefix/5/lock'' = ''wrongprefix/5/lock''"
      by (simp add: drop_leading_separator_def SEPARATOR_def)
    then have "parse pfx ''wrongprefix/5/lock'' = Path_default"
      using assms False by (intro parse_prefix_mismatch) simp_all
    then show ?thesis by (simp add: Path_default_def)
  next
    case True
    then have "?fs \<in> set (prefixes ''wrongprefix/5/lock'')" by (simp only: in_set_prefixes)
    then have "addr (parse ?fs ''wrongprefix/5/lock'') = 0
        \<and> addr (parse (SEPARATOR # ?fs) ''wrongprefix/5/lock'') = 0"
      using wrongprefix_prefixes n unfolding list_all_iff by blast
    then show ?thesis using drop_leading_separator_cases [of pfx] by metis
  qed
qed

text \<open>
  C6 (amended). For every configured prefix, \<open><prefix>/99/zzz\<close> parses to the
  default Path, whose topic is INVALID and which is not valid. For a configured prefix
  of fewer than 256 characters, \<open>wrongprefix/5/lock\<close> parses to a Path with address 0
  exactly if the prefix, without one leading separator, is neither \<open>wrongprefix\<close> nor
  \<open>wrongprefix/\<close>.
\<close>

theorem parse_rejection:
  "parse pfx (pfx @ ''/99/zzz'') = Path_default
   \<and> topic (parse pfx (pfx @ ''/99/zzz'')) = INVALID_TOPIC
   \<and> \<not> valid (parse pfx (pfx @ ''/99/zzz''))
   \<and> (length pfx < 256 \<longrightarrow>
        (addr (parse pfx ''wrongprefix/5/lock'') = 0 \<longleftrightarrow>
           drop_leading_separator pfx \<noteq> ''wrongprefix''
           \<and> drop_leading_separator pfx \<noteq> ''wrongprefix/''))"
  using parse_wrongprefix_exact [of pfx]
  by (simp add: parse_zzz Path_default_def valid_def)

theorem parse_rejection_witness:
  "length ''wrongprefix2'' < 256
   \<and> drop_leading_separator ''wrongprefix2'' = ''wrongprefix2''
   \<and> addr (parse ''wrongprefix2'' ''wrongprefix/5/lock'') = 0
   \<and> topic (parse ''wrongprefix2'' ''wrongprefix2/99/zzz'') = INVALID_TOPIC"
proof -
  have d: "drop_leading_separator ''wrongprefix2'' = ''wrongprefix2''"
    by (simp add: drop_leading_separator_def SEPARATOR_def)
  show ?thesis
    using parse_rejection [of "''wrongprefix2''"] d by (simp add: Path_default_def)
qed

text \<open>
  C6 as stated fails for a long prefix: the prefix of 267 characters that is
  \<open>wrongprefix\<close> followed by 256 times \<open>x\<close> differs from \<open>wrongprefix\<close>, also without
  a leading or trailing separator, and \<open>wrongprefix/5/lock\<close> parses to a valid Path
  with address 5 under it (the length of its token is 11 in eight bits).
\<close>

theorem parse_long_prefix_counterexample:
  "''wrongprefix'' @ replicate 256 (CHR ''x'') \<noteq> ''wrongprefix''
   \<and> drop_leading_separator (''wrongprefix'' @ replicate 256 (CHR ''x'')) \<noteq> ''wrongprefix''
   \<and> drop_leading_separator (''wrongprefix'' @ replicate 256 (CHR ''x'')) \<noteq> ''wrongprefix/''
   \<and> addr (parse (''wrongprefix'' @ replicate 256 (CHR ''x'')) ''wrongprefix/5/lock'') = 5
   \<and> valid (parse (''wrongprefix'' @ replicate 256 (CHR ''x'')) ''wrongprefix/5/lock'')"
  by code_simp













section \<open>Properties of the publisher\<close>

lemma same_frame_refl: "same_frame st st"
  by (simp add: same_frame_def)

lemma same_frame_trans: "same_frame a b \<Longrightarrow> same_frame b c \<Longrightarrow> same_frame a c"
  by (simp add: same_frame_def)

lemma same_frame_report: "same_frame st (report r st)"
  by (simp add: same_frame_def report_def cursor_def)

lemma same_frame_callback_done: "same_frame st (callback_done p ok st)"
  by (simp add: callback_done_def Let_def same_frame_def report_def cursor_def)

lemma same_frame_dispatch_setter:
  "model st (unat (addr p)) = Some hr \<Longrightarrow> same_frame st (dispatch_setter p w f v hr st)"
  by (cases "f v hr")
     (simp add: dispatch_setter_def call_setter_def callback_done_def Let_def same_frame_def
       report_def cursor_def)

lemma same_frame_callback_timer:
  "model st (unat (addr p)) = Some hr \<Longrightarrow> same_frame st (callback_timer C p v hr st)"
  unfolding callback_timer_def
  by (simp add: same_frame_dispatch_setter
      same_frame_trans [OF same_frame_report same_frame_callback_done])

lemma same_frame_callback: "same_frame st (callback C t v st)"
proof (cases "model st (unat (addr (parse (path_prefix C) t)))")
  case None
  then show ?thesis by (simp add: callback_def Let_def same_frame_report)
next
  case (Some hr)
  then show ?thesis
    by (simp add: callback_def Let_def same_frame_report same_frame_dispatch_setter
        same_frame_callback_timer)
qed

lemma same_frame_client_loop: "same_frame st (client_loop C inbound st)"
  unfolding client_loop_def
proof (induction inbound arbitrary: st)
  case Nil
  show ?case by (simp add: same_frame_refl)
next
  case (Cons m ms)
  obtain t v where m: "m = (t, v)" by (cases m)
  have "same_frame st (callback C t v st)" by (rule same_frame_callback)
  moreover have "same_frame (callback C t v st) (fold (\<lambda>(t, v). callback C t v) ms (callback C t v st))"
    by (rule Cons.IH)
  ultimately show ?case unfolding m by (simp add: same_frame_trans)
qed

lemma cursor_report [simp]: "cursor (report r st) = cursor st"
  by (simp add: cursor_def report_def)

lemma attempts_report [simp]: "attempts (report r st) = attempts st"
  by (simp add: attempts_def report_def)

lemma states_report [simp]: "states (report r st) = states st"
  by (simp add: report_def)

lemma reconnect_frame:
  "states (snd (reconnect C now st)) = states st
   \<and> cursor (snd (reconnect C now st)) = cursor st
   \<and> model (snd (reconnect C now st)) = model st
   \<and> attempts (snd (reconnect C now st)) = attempts st"
  by (simp add: reconnect_def Let_def client_connect_def client_subscribe_def report_def
      cursor_def attempts_def split: prod.splits)

lemma publish_value_frame:
  assumes "publish_value path val hint st = (val', st')"
  shows "cursor st' = cursor st" "states st' = states st"
    "attempts st' \<le> attempts st + 1"
  using assms
  by (auto simp: publish_value_def Let_def client_publish_def cursor_def attempts_def report_def
      split: if_splits prod.splits)

lemma publish_member_frame:
  "cursor (publish_member C p sel upd hr st) = cursor st"
  "attempts (publish_member C p sel upd hr st) \<le> attempts st + 1"
proof -
  obtain val st' where pv: "publish_value (compose (path_prefix C) p) (sel hr) (as_uint p) st = (val, st')"
    by (cases "publish_value (compose (path_prefix C) p) (sel hr) (as_uint p) st")
  show "cursor (publish_member C p sel upd hr st) = cursor st"
    using publish_value_frame(1) [OF pv] by (simp add: publish_member_def pv cursor_def)
  show "attempts (publish_member C p sel upd hr st) \<le> attempts st + 1"
    using publish_value_frame(3) [OF pv] by (simp add: publish_member_def pv attempts_def)
qed

lemma publish_str_frame:
  "cursor (publish_str C p v st) = cursor st"
  "attempts (publish_str C p v st) = attempts st + 1"
  by (simp_all add: publish_str_def Let_def client_publish_def cursor_def attempts_def report_def)

lemma publish_timer_slot_frame:
  assumes "publish_timer_slot C p val st = (val', st')"
  shows "cursor st' = cursor st" "states st' = states st"
    "attempts st' \<le> attempts st + 2"
    "attempts st' = (if \<not> slot_published val \<and> slot_remote_valid val then attempts st + 2 else attempts st)"
    "slot_published val' = (slot_published val \<or> slot_remote_valid val)"
  using assms
  by (auto simp: publish_timer_slot_def Let_def client_publish_def cursor_def attempts_def
      report_def split: if_splits prod.splits)

lemma attempts_next_client [simp]: "attempts (next_client C st) = attempts st"
  by (simp add: next_client_def Let_def attempts_def)

lemma attempts_next_major [simp]: "attempts (next_major C st) = attempts st"
  by (simp add: next_major_def Let_def attempts_def next_client_def)

lemma attempts_NEXT_MIN_STATE [simp]: "attempts (NEXT_MIN_STATE st) = attempts st"
  by (simp add: NEXT_MIN_STATE_def attempts_def)

lemma cursor_NEXT_MIN_STATE: "cursor st' = cursor st \<Longrightarrow> cursor (NEXT_MIN_STATE st') \<noteq> cursor st"
  by (auto simp: NEXT_MIN_STATE_def cursor_def)

lemma state_maj_next_client [simp]: "state_maj (next_client C st) = STM_FREQ"
  by (simp add: next_client_def Let_def)

lemma cursor_next_client: "state_maj st \<noteq> STM_FREQ \<Longrightarrow> cursor (next_client C st') \<noteq> cursor st"
  by (simp add: cursor_def)

lemma cursor_next_major_freq:
  "state_maj st' = STM_FREQ \<Longrightarrow> state_maj st = STM_FREQ \<Longrightarrow> cursor (next_major C st') \<noteq> cursor st"
  by (simp add: next_major_def Let_def cursor_def STM_FREQ_def STM_NEXT_CLIENT_def
      word_le_nat_alt)

lemma cursor_next_major_timer:
  "state_maj st' = STM_TIMER \<Longrightarrow> state_maj st = STM_TIMER \<Longrightarrow> cursor (next_major C st') \<noteq> cursor st"
  by (simp add: next_major_def Let_def cursor_def STM_TIMER_def STM_NEXT_CLIENT_def STM_FREQ_def
      word_le_nat_alt next_client_def)

lemma attempts_states_update [simp]: "attempts (st\<lparr>states := x\<rparr>) = attempts st"
  by (simp add: attempts_def)

lemma attempts_state_min_update [simp]: "attempts (st\<lparr>state_min := x\<rparr>) = attempts st"
  by (simp add: attempts_def)

lemma publish_frequent_attempts:
  "attempts (publish_frequent C st) \<le> attempts st + 1"
  unfolding publish_frequent_def Let_def
  using publish_member_frame(2) [of C _ _ _ _ st]
  by (simp add: publish_str_frame(2) split: option.split)

lemma publish_frequent_cursor:
  assumes "state_maj st = STM_FREQ" and "model st (unat (pub_addr st)) \<noteq> None"
  shows "cursor (publish_frequent C st) \<noteq> cursor st"
proof -
  from assms(2) obtain hr where hr: "model st (unat (pub_addr st)) = Some hr" by auto
  have upd: "\<And>x. state_maj (st\<lparr>states := x\<rparr>) = STM_FREQ" using assms(1) by simp
  show ?thesis
    unfolding publish_frequent_def Let_def hr option.case
    by (simp add: cursor_NEXT_MIN_STATE publish_member_frame(1) publish_str_frame(1)
        cursor_next_major_freq assms(1) upd)
qed

lemma publish_timers_attempts:
  "attempts (publish_timers C st) \<le> attempts st + 2"
proof (cases "model st (unat (pub_addr st))")
  case None
  then show ?thesis by (simp add: publish_timers_def Let_def)
next
  case (Some hr)
  let ?a = "unat (pub_addr st)"
  let ?d = "drop_bit 3 (state_min st)" and ?s = "state_min st AND 7"
  let ?st1 = "st\<lparr>state_min := state_min st + 1\<rparr>"
  let ?st2 = "if ?s = 7
      then ?st1\<lparr>states := (states ?st1)[?a := states ?st1 ! ?a AND NOT (timer_day_2_change C (unat ?d))]\<rparr>
      else ?st1"
  let ?p = "Path_make (pub_addr ?st2) TIMER False TIMER_NONE ?d ?s"
  obtain val st' where ps: "publish_timer_slot C ?p (timers hr (unat ?d) (unat ?s)) ?st2 = (val, st')"
    by (cases "publish_timer_slot C ?p (timers hr (unat ?d) (unat ?s)) ?st2")
  have "attempts st' \<le> attempts ?st2 + 2" using ps by (rule publish_timer_slot_frame(3))
  moreover have "attempts ?st2 = attempts st" by simp
  ultimately have a: "attempts st' \<le> attempts st + 2" by simp
  have m: "\<And>x. attempts (st'\<lparr>model := x\<rparr>) = attempts st'" by (simp add: attempts_def)
  show ?thesis
    using a ps
    by (simp add: publish_timers_def Let_def Some m split: if_splits)
qed

lemma publish_timers_cursor:
  assumes "state_maj st = STM_TIMER" and "model st (unat (pub_addr st)) \<noteq> None"
  shows "cursor (publish_timers C st) \<noteq> cursor st"
proof -
  from assms(2) obtain hr where hr: "model st (unat (pub_addr st)) = Some hr" by auto
  let ?a = "unat (pub_addr st)"
  let ?d = "drop_bit 3 (state_min st)" and ?s = "state_min st AND 7"
  let ?st1 = "st\<lparr>state_min := state_min st + 1\<rparr>"
  let ?st2 = "if ?s = 7
      then ?st1\<lparr>states := (states ?st1)[?a := states ?st1 ! ?a AND NOT (timer_day_2_change C (unat ?d))]\<rparr>
      else ?st1"
  let ?p = "Path_make (pub_addr ?st2) TIMER False TIMER_NONE ?d ?s"
  obtain val st' where ps: "publish_timer_slot C ?p (timers hr (unat ?d) (unat ?s)) ?st2 = (val, st')"
    by (cases "publish_timer_slot C ?p (timers hr (unat ?d) (unat ?s)) ?st2")
  have "cursor st' = cursor ?st2" using ps by (rule publish_timer_slot_frame(1))
  then have c: "cursor st' \<noteq> cursor st" by (auto simp: cursor_def)
  have m: "\<And>x. cursor (st'\<lparr>model := x\<rparr>) = cursor st'" by (simp add: cursor_def)
  have cs1: "cursor ?st1 \<noteq> cursor st" by (simp add: cursor_def)
  have t1: "state_maj ?st1 = STM_TIMER" using assms(1) by simp
  show ?thesis
    using c ps cs1
    by (simp add: publish_timers_def Let_def hr m cursor_next_major_timer assms(1) t1
        split: if_splits)
qed

lemma u8_le_8:
  "(m :: u8) \<le> 8 \<longleftrightarrow> m = 0 \<or> m = 1 \<or> m = 2 \<or> m = 3 \<or> m = 4 \<or> m = 5 \<or> m = 6 \<or> m = 7 \<or> m = 8"
proof
  assume "m \<le> 8"
  then have "unat m \<le> 8" by (simp add: word_le_nat_alt)
  then consider "unat m = 0" | "unat m = 1" | "unat m = 2" | "unat m = 3" | "unat m = 4"
    | "unat m = 5" | "unat m = 6" | "unat m = 7" | "unat m = 8"
    by atomize_elim arith
  then show "m = 0 \<or> m = 1 \<or> m = 2 \<or> m = 3 \<or> m = 4 \<or> m = 5 \<or> m = 6 \<or> m = 7 \<or> m = 8"
    by cases (simp_all add: word_unat_eq_iff)
next
  assume "m = 0 \<or> m = 1 \<or> m = 2 \<or> m = 3 \<or> m = 4 \<or> m = 5 \<or> m = 6 \<or> m = 7 \<or> m = 8"
  then show "m \<le> 8" by (auto simp: word_le_nat_alt)
qed

lemma cursor_next_client_eq:
  "cursor (next_client C st) = (next_addr C (pub_addr st), STM_FREQ, 0)"
  by (simp add: next_client_def next_addr_def Let_def cursor_def)

lemma cursor_next_major_freq_eq:
  "state_maj st = STM_FREQ \<Longrightarrow> cursor (next_major C st) = (pub_addr st, STM_TIMER, 0)"
  by (simp add: next_major_def Let_def cursor_def STM_TIMER_def STM_NEXT_CLIENT_def STM_FREQ_def
      word_le_nat_alt)

lemma cursor_next_major_timer_eq:
  "state_maj st = STM_TIMER \<Longrightarrow>
   cursor (next_major C st) = (next_addr C (pub_addr st), STM_FREQ, 0)"
  by (simp add: next_major_def Let_def cursor_def STM_TIMER_def STM_NEXT_CLIENT_def STM_FREQ_def
      word_le_nat_alt next_client_def next_addr_def)

lemma cursor_NEXT_MIN_STATE_eq:
  "cursor st' = cursor st \<Longrightarrow>
   cursor (NEXT_MIN_STATE st') = (pub_addr st, state_maj st, state_min st + 1)"
  by (auto simp: NEXT_MIN_STATE_def cursor_def)

lemma publish_frequent_successor:
  assumes maj: "state_maj st = STM_FREQ" and dev: "model st (unat (pub_addr st)) \<noteq> None"
  shows "cursor (publish_frequent C st) = successor C st"
proof -
  from dev obtain hr where hr: "model st (unat (pub_addr st)) = Some hr" by auto
  have upd: "\<And>x. state_maj (st\<lparr>states := x\<rparr>) = STM_FREQ"
    "\<And>x. pub_addr (st\<lparr>states := x\<rparr>) = pub_addr st" using maj by simp_all
  note nm = cursor_next_major_freq_eq
  have step: "\<And>st'. cursor st' = cursor st \<Longrightarrow>
      cursor (NEXT_MIN_STATE st') = (pub_addr st, STM_FREQ, state_min st + 1)"
    using cursor_NEXT_MIN_STATE_eq maj by simp
  show ?thesis
  proof (cases "states st ! unat (pub_addr st) AND CHANGE_FREQUENT C = 0")
    case True
    then show ?thesis
      by (simp add: publish_frequent_def Let_def successor_def maj nm)
  next
    case False
    show ?thesis
    proof (cases "state_min st \<le> 8 \<or> (MQTT_JSON C \<and> state_min st = 9)")
      case True
      then have "cursor (publish_frequent C st) = (pub_addr st, STM_FREQ, state_min st + 1)"
        unfolding publish_frequent_def Let_def hr option.case u8_le_8
        using False
        by (auto simp: step publish_member_frame(1) publish_str_frame(1))
      then show ?thesis using True False by (simp add: successor_def Let_def maj)
    next
      case F: False
      then have ne: "state_min st \<noteq> 0" "state_min st \<noteq> 1" "state_min st \<noteq> 2"
        "state_min st \<noteq> 3" "state_min st \<noteq> 4" "state_min st \<noteq> 5" "state_min st \<noteq> 6"
        "state_min st \<noteq> 7" "state_min st \<noteq> 8" "\<not> (MQTT_JSON C \<and> state_min st = 9)"
        unfolding u8_le_8 by auto
      have "cursor (publish_frequent C st) = (pub_addr st, STM_TIMER, 0)"
        unfolding publish_frequent_def Let_def hr option.case
        using False ne by (auto simp: nm upd)
      then show ?thesis using F False by (simp add: successor_def Let_def maj)
    qed
  qed
qed

lemma publish_timers_successor:
  assumes maj: "state_maj st = STM_TIMER" and dev: "model st (unat (pub_addr st)) \<noteq> None"
  shows "cursor (publish_timers C st) = successor C st"
proof -
  from dev obtain hr where hr: "model st (unat (pub_addr st)) = Some hr" by auto
  let ?a = "unat (pub_addr st)"
  let ?d = "drop_bit 3 (state_min st)" and ?s = "state_min st AND 7"
  let ?st1 = "st\<lparr>state_min := state_min st + 1\<rparr>"
  let ?st2 = "if ?s = 7
      then ?st1\<lparr>states := (states ?st1)[?a := states ?st1 ! ?a AND NOT (timer_day_2_change C (unat ?d))]\<rparr>
      else ?st1"
  let ?p = "Path_make (pub_addr ?st2) TIMER False TIMER_NONE ?d ?s"
  obtain val st' where ps: "publish_timer_slot C ?p (timers hr (unat ?d) (unat ?s)) ?st2 = (val, st')"
    by (cases "publish_timer_slot C ?p (timers hr (unat ?d) (unat ?s)) ?st2")
  have "cursor st' = cursor ?st2" using ps by (rule publish_timer_slot_frame(1))
  then have c: "cursor st' = (pub_addr st, STM_TIMER, state_min st + 1)"
    using maj by (auto simp: cursor_def)
  have m: "\<And>x. cursor (st'\<lparr>model := x\<rparr>) = cursor st'" by (simp add: cursor_def)
  have cs1: "cursor ?st1 = (pub_addr st, STM_TIMER, state_min st + 1)"
    using maj by (simp add: cursor_def)
  note nm = cursor_next_major_timer_eq
  have tf: "STM_TIMER \<noteq> STM_FREQ" by (simp add: STM_TIMER_def STM_FREQ_def)
  have le: "(8 \<le> ?d) = (\<not> ?d < 8)" by auto
  show ?thesis
    using c ps cs1 tf
    by (simp add: publish_timers_def Let_def hr m nm maj successor_def le
        split: if_splits)
qed

text \<open>
  C1 (amended). In a state whose current address has a non-empty change mask and a
  device in the model, one call of \<open>update\<close> for which \<open>reconnect\<close> reports ready
  makes at most one publish call when the major state is FREQUENT and at most two when
  it is TIMER, and the cursor (address, major, minor) after the call is the successor
  position, which differs from the cursor before.
\<close>

theorem scheduler_tick_bounded:
  assumes wf: "wf_publisher C st"
    and ready: "fst (reconnect C now st)"
    and mask: "states st ! unat (pub_addr st) \<noteq> 0"
    and dev: "model st (unat (pub_addr st)) \<noteq> None"
  shows "(state_maj st = STM_FREQ \<longrightarrow> attempts (update C now inbound st) \<le> attempts st + 1)
     \<and> (state_maj st = STM_TIMER \<longrightarrow> attempts (update C now inbound st) \<le> attempts st + 2)
     \<and> cursor (update C now inbound st) = successor C st
     \<and> cursor (update C now inbound st) \<noteq> cursor st"
proof -
  obtain st1 where r: "reconnect C now st = (True, st1)"
    using ready by (cases "reconnect C now st") simp
  let ?st2 = "client_loop C inbound st1"
  have f1: "states st1 = states st" "cursor st1 = cursor st" "model st1 = model st"
    "attempts st1 = attempts st"
    using reconnect_frame [of C now st] by (simp_all add: r)
  have sf: "same_frame st1 ?st2" by (rule same_frame_client_loop)
  have s1: "client ?st2 = client st1" "states ?st2 = states st1" "cursor ?st2 = cursor st1"
    "model ?st2 (unat (pub_addr st)) = None \<longleftrightarrow> model st1 (unat (pub_addr st)) = None"
    using sf unfolding same_frame_def by blast+
  have a2: "attempts ?st2 = attempts st1" unfolding attempts_def s1(1) ..
  have f2: "states ?st2 = states st" "cursor ?st2 = cursor st" "attempts ?st2 = attempts st"
    "model ?st2 (unat (pub_addr st)) \<noteq> None"
    using s1(2) f1(1) apply (rule trans)
    using s1(3) f1(2) apply (rule trans)
    using a2 f1(4) apply (rule trans)
    using dev unfolding s1(4) f1(3) .
  have pa: "pub_addr ?st2 = pub_addr st" "state_maj ?st2 = state_maj st"
    "state_min ?st2 = state_min st"
    using f2(2) by (simp_all add: cursor_def)
  have nz: "states ?st2 ! unat (pub_addr ?st2) \<noteq> 0" using mask f2(1) pa by simp
  have u: "update C now inbound st =
      (if state_maj st = STM_FREQ then publish_frequent C ?st2
       else if state_maj st = STM_TIMER then publish_timers C ?st2
       else next_client C ?st2)"
    using nz by (simp add: update_def r pa)
  have d2: "model ?st2 (unat (pub_addr ?st2)) \<noteq> None" using f2(4) pa by simp
  have succ: "successor C ?st2 = successor C st"
    unfolding successor_def pa f2(1) ..
  show ?thesis
  proof (cases "state_maj st = STM_FREQ")
    case True
    have "attempts (publish_frequent C ?st2) \<le> attempts ?st2 + 1"
      by (rule publish_frequent_attempts)
    moreover have "cursor (publish_frequent C ?st2) \<noteq> cursor ?st2"
      using True pa d2 by (intro publish_frequent_cursor) simp_all
    moreover have "cursor (publish_frequent C ?st2) = successor C ?st2"
      using True pa d2 by (intro publish_frequent_successor) simp_all
    ultimately show ?thesis using True u f2 succ by (simp add: STM_FREQ_def STM_TIMER_def)
  next
    case False
    show ?thesis
    proof (cases "state_maj st = STM_TIMER")
      case True
      have "attempts (publish_timers C ?st2) \<le> attempts ?st2 + 2"
        by (rule publish_timers_attempts)
      moreover have "cursor (publish_timers C ?st2) \<noteq> cursor ?st2"
        using True pa d2 by (intro publish_timers_cursor) simp_all
      moreover have "cursor (publish_timers C ?st2) = successor C ?st2"
        using True pa d2 by (intro publish_timers_successor) simp_all
      ultimately show ?thesis using True False u f2 succ by simp
    next
      case F2: False
      have "cursor (next_client C ?st2) \<noteq> cursor st"
        using False by (rule cursor_next_client)
      moreover have "cursor (next_client C ?st2) = successor C st"
        using False F2 by (simp add: cursor_next_client_eq successor_def Let_def pa)
      ultimately show ?thesis using False F2 u by simp
    qed
  qed
qed

theorem scheduler_tick_bounded_witness:
  "wf_publisher example_config
     (example_publisher (example_client True False) (\<lambda>a. Some example_device) 1 0 0)
   \<and> attempts (update example_config 100 []
        (example_publisher (example_client True False) (\<lambda>a. Some example_device) 1 0 0)) = 1
   \<and> cursor (update example_config 100 []
        (example_publisher (example_client True False) (\<lambda>a. Some example_device) 1 0 0)) = (3, 0, 1)
   \<and> successor example_config
        (example_publisher (example_client True False) (\<lambda>a. Some example_device) 1 0 0) = (3, 0, 1)
   \<and> cursor (update example_config 100 []
        (example_publisher (example_client True False) (\<lambda>a. Some example_device) 1 0 0))
       \<noteq> cursor (example_publisher (example_client True False) (\<lambda>a. Some example_device) 1 0 0)
   \<and> cursor (update example_config 100 []
        (example_publisher (example_client True False) (\<lambda>a. Some example_device) 2 1 64)) = (4, 0, 0)
   \<and> successor example_config
        (example_publisher (example_client True False) (\<lambda>a. Some example_device) 2 1 64) = (4, 0, 0)"
proof -
  let ?st = "example_publisher (example_client True False) (\<lambda>a. Some example_device) 1 0 0"
  let ?st' = "example_publisher (example_client True False) (\<lambda>a. Some example_device) 2 1 64"
  have wf: "wf_publisher example_config ?st" by code_simp
  have ready: "fst (reconnect example_config 100 ?st)" by code_simp
  have mask: "states ?st ! unat (pub_addr ?st) \<noteq> 0" by code_simp
  have dev: "model ?st (unat (pub_addr ?st)) \<noteq> None" by code_simp
  have a: "attempts (update example_config 100 [] ?st) = 1" by code_simp
  have c: "cursor (update example_config 100 [] ?st) = (3, 0, 1)" by code_simp
  have wf': "wf_publisher example_config ?st'" by code_simp
  have ready': "fst (reconnect example_config 100 ?st')" by code_simp
  have mask': "states ?st' ! unat (pub_addr ?st') \<noteq> 0" by code_simp
  have dev': "model ?st' (unat (pub_addr ?st')) \<noteq> None" by code_simp
  have c': "cursor (update example_config 100 [] ?st') = (4, 0, 0)" by code_simp
  note i = scheduler_tick_bounded [OF wf ready mask dev, of "[]"]
  note i' = scheduler_tick_bounded [OF wf' ready' mask' dev', of "[]"]
  have "cursor (update example_config 100 [] ?st) = successor example_config ?st"
    using i by blast
  then have s: "successor example_config ?st = (3, 0, 1)" using c by simp
  have "cursor (update example_config 100 [] ?st') = successor example_config ?st'"
    using i' by blast
  then have s': "successor example_config ?st' = (4, 0, 0)" using c' by simp
  have n: "cursor (update example_config 100 [] ?st) \<noteq> cursor ?st"
    using i by blast
  show ?thesis
    using wf a c s n c' s' by blast
qed

text \<open>
  C1 as stated fails where the model has no device at the current address: with the
  frequent bit set in major state FREQUENT, and with a timer bit set in major state
  TIMER, \<open>update\<close> reports MQTT_INVALID_CLIENT and leaves the cursor where it was.
\<close>

theorem scheduler_stuck_without_device_counterexample:
  "wf_publisher example_config
     (example_publisher (example_client True True) (\<lambda>a. None) 1 0 0)
   \<and> fst (reconnect example_config 100
        (example_publisher (example_client True True) (\<lambda>a. None) 1 0 0))
   \<and> states (example_publisher (example_client True True) (\<lambda>a. None) 1 0 0) ! 3 \<noteq> 0
   \<and> cursor (update example_config 100 []
        (example_publisher (example_client True True) (\<lambda>a. None) 1 0 0))
       = cursor (example_publisher (example_client True True) (\<lambda>a. None) 1 0 0)
   \<and> cursor (update example_config 100 []
        (example_publisher (example_client True True) (\<lambda>a. None) 2 1 0))
       = cursor (example_publisher (example_client True True) (\<lambda>a. None) 2 1 0)"
  by code_simp








lemma publish_timer_slot_result:
  "publish_timer_slot C p val st = (val', st') \<Longrightarrow>
   val' = val\<lparr>slot_published := slot_published val \<or> slot_remote_valid val\<rparr>
   \<and> states st' = states st \<and> model st' = model st
   \<and> attempts st' = (if \<not> slot_published val \<and> slot_remote_valid val
                      then attempts st + 2 else attempts st)"
  by (auto simp: publish_timer_slot_def Let_def client_publish_def attempts_def report_def
      split: if_splits prod.splits)

text \<open>
  C5. In a step of the timer walk that reaches a day whose bit is set in the timer
  mask, whatever the transport's publish calls report (\<open>f\<close>): at slot 7 the day's
  change bits are cleared from the mask; the slot's published flag is true afterwards
  if it was true or the slot's remote value is known, in which case exactly two publish
  calls are made; and the minor state is incremented.
\<close>

theorem timer_walk_retires_despite_failure:
  assumes wf: "wf_publisher C st"
    and hr: "model st (unat (pub_addr st)) = Some hr"
    and pending: "states st ! unat (pub_addr st) AND CHANGE_TIMER_MASK C \<noteq> 0"
    and dy: "drop_bit 3 (state_min st) < 8"
    and bt: "push_bit (unat (drop_bit 3 (state_min st))) (1 :: int)
             AND uint (change_get_timer_mask C (states st ! unat (pub_addr st))) \<noteq> 0"
  shows "let a = unat (pub_addr st);
             d = unat (drop_bit 3 (state_min st));
             s = unat (state_min st AND 7);
             old = timers hr d s;
             st' = publish_timers C (st\<lparr>client := (client st)\<lparr>publish_result := f\<rparr>\<rparr>)
         in (state_min st AND 7 = 7 \<longrightarrow>
               states st' ! a = states st ! a AND NOT (timer_day_2_change C d)
               \<and> states st' ! a AND timer_day_2_change C d = 0)
            \<and> model st' a =
                 Some (hr\<lparr>timers := (timers hr)(d := (timers hr d)(s :=
                         old\<lparr>slot_published := slot_published old \<or> slot_remote_valid old\<rparr>))\<rparr>)
            \<and> attempts st' =
                 (if \<not> slot_published old \<and> slot_remote_valid old
                  then attempts st + 2 else attempts st)
            \<and> state_min st' = state_min st + 1"
proof -
  let ?a = "unat (pub_addr st)"
  let ?d = "drop_bit 3 (state_min st)" and ?s = "state_min st AND 7"
  let ?st0 = "st\<lparr>client := (client st)\<lparr>publish_result := f\<rparr>\<rparr>"
  let ?st1 = "?st0\<lparr>state_min := state_min st + 1\<rparr>"
  let ?st2 = "if ?s = 7
      then ?st1\<lparr>states := (states st)[?a := states st ! ?a AND NOT (timer_day_2_change C (unat ?d))]\<rparr>
      else ?st1"
  let ?p = "Path_make (pub_addr st) TIMER False TIMER_NONE ?d ?s"
  let ?old = "timers hr (unat ?d) (unat ?s)"
  obtain val st' where ps: "publish_timer_slot C ?p ?old ?st2 = (val, st')"
    by (cases "publish_timer_slot C ?p ?old ?st2")
  note res = publish_timer_slot_result [OF ps]
  have nd: "\<not> 8 \<le> ?d" using dy by simp
  have pt: "publish_timers C ?st0 =
      st'\<lparr>model := (model st')(?a \<mapsto>
             hr\<lparr>timers := (timers hr)(unat ?d := (timers hr (unat ?d))(unat ?s := val))\<rparr>)\<rparr>"
    using hr pending nd bt ps
    by (simp add: publish_timers_def Let_def split: if_splits)
  have len: "?a < length (states st)" using wf by (simp add: wf_publisher_def)
  have st2s: "states ?st2 = (if ?s = 7
      then (states st)[?a := states st ! ?a AND NOT (timer_day_2_change C (unat ?d))]
      else states st)"
    by simp
  have a2: "attempts ?st2 = attempts st" by (simp add: attempts_def)
  have m2: "state_min st' = state_min st + 1"
    using publish_timer_slot_frame(1) [OF ps] by (simp add: cursor_def split: if_splits)
  have x: "(w AND NOT y) AND y = 0" for w y :: u32
    by (simp add: and.assoc)
  show ?thesis
    unfolding Let_def pt
    using res len a2 m2 by (simp add: st2s attempts_def x)
qed


theorem timer_walk_retires_despite_failure_witness:
  "wf_publisher example_config
     (example_publisher (example_client True True) (\<lambda>a. Some example_device) 0x100 1 63)
   \<and> states (publish_timers example_config
         ((example_publisher (example_client True True) (\<lambda>a. Some example_device) 0x100 1 63)
            \<lparr>client := (client (example_publisher (example_client True True)
                 (\<lambda>a. Some example_device) 0x100 1 63))\<lparr>publish_result := (\<lambda>n. False)\<rparr>\<rparr>)) ! 3 = 0
   \<and> attempts (publish_timers example_config
         ((example_publisher (example_client True True) (\<lambda>a. Some example_device) 0x100 1 63)
            \<lparr>client := (client (example_publisher (example_client True True)
                 (\<lambda>a. Some example_device) 0x100 1 63))\<lparr>publish_result := (\<lambda>n. False)\<rparr>\<rparr>)) = 2
   \<and> reports (publish_timers example_config
         ((example_publisher (example_client True True) (\<lambda>a. Some example_device) 0x100 1 63)
            \<lparr>client := (client (example_publisher (example_client True True)
                 (\<lambda>a. Some example_device) 0x100 1 63))\<lparr>publish_result := (\<lambda>n. False)\<rparr>\<rparr>))
       = [Err_arg MQTT_CANT_PUBLISH 323]"
proof -
  let ?st = "example_publisher (example_client True True) (\<lambda>a. Some example_device) 0x100 1 63"
  let ?st' = "publish_timers example_config
      (?st\<lparr>client := (client ?st)\<lparr>publish_result := (\<lambda>n. False)\<rparr>\<rparr>)"
  let ?d = "unat (drop_bit 3 (state_min ?st))"
  let ?old = "timers example_device ?d (unat (state_min ?st AND 7))"
  have wf: "wf_publisher example_config ?st" by code_simp
  have hr: "model ?st (unat (pub_addr ?st)) = Some example_device"
    by (simp add: example_publisher_def)
  have pending: "states ?st ! unat (pub_addr ?st) AND CHANGE_TIMER_MASK example_config \<noteq> 0"
    by code_simp
  have dy: "drop_bit 3 (state_min ?st) < 8" by code_simp
  have bt: "push_bit (unat (drop_bit 3 (state_min ?st))) (1 :: int)
      AND uint (change_get_timer_mask example_config (states ?st ! unat (pub_addr ?st))) \<noteq> 0"
    by code_simp
  have s7: "state_min ?st AND 7 = 7" by code_simp
  have e: "unat (pub_addr ?st) = 3"
    "states ?st ! 3 AND NOT (timer_day_2_change example_config ?d) = 0"
    "attempts ?st = 0" "\<not> slot_published ?old" "slot_remote_valid ?old"
    by code_simp+
  have r: "reports ?st' = [Err_arg MQTT_CANT_PUBLISH 323]" by code_simp
  note inst = timer_walk_retires_despite_failure [OF wf hr pending dy bt, of "\<lambda>n. False", unfolded Let_def]
  have "states ?st' ! unat (pub_addr ?st)
      = states ?st ! unat (pub_addr ?st) AND NOT (timer_day_2_change example_config ?d)"
    using inst [THEN conjunct1] s7 by blast
  then have S: "states ?st' ! 3 = 0" by (simp only: e)
  have "attempts ?st' =
      (if \<not> slot_published ?old \<and> slot_remote_valid ?old then attempts ?st + 2 else attempts ?st)"
    using inst by blast
  then have A: "attempts ?st' = 2" by (simp only: e) simp
  show ?thesis using wf S A r by blast
qed


end
